theory Spec2Isabelle
  imports Complex_Main "HOL-Library.Word" "HOL-Library.Sublist"
begin

section \<open>PCM audio relay with a silence gate (\<open>audio_handler.py\<close>)\<close>

text \<open>
  The development follows the source file top to bottom: the audio constants, the
  peak-amplitude silence classifier, the per-connection message loop with its silence
  gate, and the teardown that writes the WAV file.

  Python values are modelled as follows. A \<open>bytes\<close> object is a list of 8-bit words, a
  Python \<open>int\<close> is an \<open>int\<close>, a length is a \<open>nat\<close>. An exception is a value of the
  datatype \<open>exn\<close>; a function that can raise returns \<open>exn + 'a\<close> with \<open>Inl\<close> for the
  raise. A Python \<open>float\<close> is an IEEE binary64 number; it is modelled by the rational it
  denotes, and every float operation rounds its exact result to 53 significant bits
  (section \<open>Float arithmetic\<close>).

  What the handler receives from outside is a parameter of the model: the frames the
  peer delivers and the way the connection ends, the outcome of each \<open>websocket.send\<close>,
  the clock reading, and the outcome of the file write. The process-wide set
  \<open>CONNECTIONS\<close> and the RMS variant of the classifier, which the handler does not
  call, are left out.
\<close>

subsection \<open>Audio settings\<close>

type_synonym byte = "8 word"
type_synonym bytes = "byte list"

definition SAMPLE_RATE :: nat where "SAMPLE_RATE = 16000"
definition CHANNELS :: nat where "CHANNELS = 1"
definition SAMPLE_WIDTH :: nat where "SAMPLE_WIDTH = 2"
definition BYTES_PER_SAMPLE :: nat where "BYTES_PER_SAMPLE = CHANNELS * SAMPLE_WIDTH"
definition BYTES_PER_SECOND :: nat where "BYTES_PER_SECOND = SAMPLE_RATE * BYTES_PER_SAMPLE"

definition SILENCE_THRESHOLD :: int where "SILENCE_THRESHOLD = 800"

subsection \<open>Exceptions\<close>

text \<open>
  The exceptions the handler distinguishes. \<open>StructError\<close> is \<open>struct.error\<close>,
  \<open>OtherException\<close> stands for any other subclass of \<open>Exception\<close> (an \<open>OSError\<close> or
  \<open>wave.Error\<close> of the file write among them), and \<open>NonException\<close> for a
  \<open>BaseException\<close> outside \<open>Exception\<close> (\<open>CancelledError\<close>, \<open>KeyboardInterrupt\<close>),
  which no \<open>except Exception\<close> clause catches.
\<close>

datatype exn =
    ConnectionClosedOK
  | ConnectionClosedError
  | StructError
  | OtherException
  | NonException

fun is_Exception :: "exn \<Rightarrow> bool" where
  "is_Exception NonException = False"
| "is_Exception _ = True"

subsection \<open>The silence classifier\<close>

text \<open>
  \<open>bs[i:j]\<close> for \<open>0 \<le> i \<le> j\<close>: Python clamps both ends of a slice to the length,
  as \<open>take\<close> and \<open>drop\<close> do.
\<close>

definition slice :: "bytes \<Rightarrow> nat \<Rightarrow> nat \<Rightarrow> bytes" where
  "slice bs i j = take (j - i) (drop i bs)"

text \<open>
  \<open>struct.unpack('<h', b)[0]\<close>: \<open>b\<close> must hold exactly two bytes, low byte first;
  the 16-bit value is read as two's complement. Any other length raises \<open>struct.error\<close>.
\<close>

fun s16 :: "byte \<Rightarrow> byte \<Rightarrow> int" where
  "s16 lo hi = (let u = uint lo + 256 * uint hi in if u < 32768 then u else u - 65536)"

fun unpack_h :: "bytes \<Rightarrow> exn + int" where
  "unpack_h [lo, hi] = Inr (s16 lo hi)"
| "unpack_h _ = Inl StructError"

text \<open>
  The \<open>for i in range(num_samples)\<close> loop of \<open>is_chunk_silent_max_abs\<close>, over the
  indices still to visit, with \<open>max_amplitude\<close> as the loop variable.
\<close>

fun max_abs_loop :: "bytes \<Rightarrow> nat list \<Rightarrow> int \<Rightarrow> exn + int" where
  "max_abs_loop pcm_chunk_bytes [] max_amplitude = Inr max_amplitude"
| "max_abs_loop pcm_chunk_bytes (i # is) max_amplitude =
     (let sample_bytes = slice pcm_chunk_bytes (i * SAMPLE_WIDTH) ((i + 1) * SAMPLE_WIDTH)
      in case unpack_h sample_bytes of
           Inl e \<Rightarrow> Inl e
         | Inr sample_val \<Rightarrow>
             max_abs_loop pcm_chunk_bytes is
               (if \<bar>sample_val\<bar> > max_amplitude then \<bar>sample_val\<bar> else max_amplitude))"

definition is_chunk_silent_max_abs :: "bytes \<Rightarrow> int \<Rightarrow> exn + bool" where
  "is_chunk_silent_max_abs pcm_chunk_bytes threshold =
     (if pcm_chunk_bytes = [] then Inr True
      else
        let num_samples = length pcm_chunk_bytes div SAMPLE_WIDTH in
        case max_abs_loop pcm_chunk_bytes [0..<num_samples] 0 of
          Inl e \<Rightarrow> Inl e
        | Inr max_amplitude \<Rightarrow> Inr (max_amplitude < threshold))"

text \<open>
  A reading of the chunk that does not go through indices: the complete samples in
  order, and their peak magnitude (0 when there is none).
\<close>

fun samples :: "bytes \<Rightarrow> int list" where
  "samples (lo # hi # rest) = s16 lo hi # samples rest"
| "samples _ = []"

definition peak :: "int list \<Rightarrow> int" where
  "peak vs = foldl (\<lambda>m v. if \<bar>v\<bar> > m then \<bar>v\<bar> else m) 0 vs"

subsection \<open>Float arithmetic\<close>

text \<open>
  Python's \<open>float\<close> is IEEE 754 binary64 with round-to-nearest, ties-to-even. A finite
  float is modelled by the rational it denotes, and an operation returns its exact
  result rounded to 53 significant bits. The exponent is left unbounded: every float
  this program computes is 0 or at least \<open>1/32000\<close> (no subnormals), and a chunk length
  is below \<open>2^63\<close>, far from overflow.
\<close>

fun bit_length :: "nat \<Rightarrow> nat" where
  "bit_length n = (if n = 0 then 0 else Suc (bit_length (n div 2)))"

text \<open>For \<open>x > 0\<close>, the exponent \<open>e\<close> with \<open>2^e \<le> x < 2^(e+1)\<close>.\<close>

definition ilog2 :: "rat \<Rightarrow> int" where
  "ilog2 x =
     (if 1 \<le> x then int (bit_length (nat \<lfloor>x\<rfloor>)) - 1
      else - int (bit_length (nat (\<lceil>1 / x\<rceil> - 1))))"

definition round_half_even :: "rat \<Rightarrow> int" where
  "round_half_even x =
     (let f = \<lfloor>x\<rfloor>; r = x - of_int f
      in if r < 1 / 2 then f
         else if 1 / 2 < r then f + 1
         else if even f then f else f + 1)"

definition round53 :: "rat \<Rightarrow> rat" where
  "round53 x =
     (if x = 0 then 0
      else
        let ulp = 2 powi (ilog2 \<bar>x\<bar> - 52)
        in sgn x * of_int (round_half_even (\<bar>x\<bar> / ulp)) * ulp)"

definition float_add :: "rat \<Rightarrow> rat \<Rightarrow> rat" where
  "float_add x y = round53 (x + y)"

text \<open>
  \<open>a / b\<close> on two Python ints: the quotient, correctly rounded. The only divisor in
  the program is the constant \<open>BYTES_PER_SECOND = 32000\<close>, so \<open>ZeroDivisionError\<close> is
  not a case.
\<close>

definition int_truediv :: "nat \<Rightarrow> nat \<Rightarrow> rat" where
  "int_truediv a b = round53 (of_nat a / of_nat b)"

definition MAX_SILENCE_SECONDS :: rat where "MAX_SILENCE_SECONDS = 1"

subsection \<open>The connection and the handler's variables\<close>

datatype message = Bytes bytes | Text string

text \<open>
  One inbound frame as the handler meets it: the message the iteration over the
  websocket yields, and what \<open>websocket.send\<close> does if the handler calls it while this
  message is being handled (\<open>None\<close>: it returns, \<open>Some e\<close>: it raises \<open>e\<close>).
\<close>

type_synonym frame = "message \<times> exn option"

text \<open>The lines the handler prints, without their formatting.\<close>

datatype printed =
    ClientConnected
  | PausingRelay
  | ResumingRelay
  | ReceivedTextMessage string
  | DisconnectedNormally
  | DisconnectedWithError
  | ErrorOccurred
  | RemovedFromConnections
  | WritingChunks nat
  | SuccessfullySaved
  | ErrorWritingWav
  | NoAudioData

text \<open>
  The local variables of one \<open>audio_handler\<close> call, with the two things it does to
  the outside: \<open>sent\<close>, the frames passed to \<open>websocket.send\<close> that went out, in order,
  and \<open>printed\<close>.
\<close>

record session =
  pcm_data_chunks :: "bytes list"
  current_silence_accumulated_duration :: rat
  relaying_audio :: bool
  sent :: "bytes list"
  printed :: "printed list"

definition print :: "printed \<Rightarrow> session \<Rightarrow> session" where
  "print l s = s\<lparr>printed := printed s @ [l]\<rparr>"

definition initial_session :: session where
  "initial_session =
     \<lparr>pcm_data_chunks = [], current_silence_accumulated_duration = 0,
      relaying_audio = True, sent = [], printed = [ClientConnected]\<rparr>"

subsection \<open>The silence gate\<close>

text \<open>\<open>chunk_duration_seconds = len(message) / BYTES_PER_SECOND\<close>.\<close>

definition chunk_duration :: "bytes \<Rightarrow> rat" where
  "chunk_duration message = int_truediv (length message) BYTES_PER_SECOND"

text \<open>The \<open>if is_silent_now: ... else: ...\<close> statement of the message loop.\<close>

definition silence_gate :: "bool \<Rightarrow> rat \<Rightarrow> session \<Rightarrow> session" where
  "silence_gate is_silent_now chunk_duration_seconds s =
     (if is_silent_now then
        let s1 = s\<lparr>current_silence_accumulated_duration :=
                     float_add (current_silence_accumulated_duration s) chunk_duration_seconds\<rparr>
        in if current_silence_accumulated_duration s1 \<ge> MAX_SILENCE_SECONDS then
             (if relaying_audio s1 then (print PausingRelay s1)\<lparr>relaying_audio := False\<rparr>
              else s1)
           else s1
      else
        let s1 = (if \<not> relaying_audio s then (print ResumingRelay s)\<lparr>relaying_audio := True\<rparr>
                  else s)
        in s1\<lparr>current_silence_accumulated_duration := 0\<rparr>)"

subsection \<open>The message loop\<close>

text \<open>
  The body of \<open>async for message in websocket\<close> for one frame. The result is the
  variables after the body and the exception it raised, if any; what was assigned
  before a raise stays assigned.
\<close>

fun handle_message :: "frame \<Rightarrow> session \<Rightarrow> session \<times> exn option" where
  "handle_message (Bytes message, send_outcome) s =
     (let s1 = s\<lparr>pcm_data_chunks := pcm_data_chunks s @ [message]\<rparr>;
          chunk_duration_seconds = chunk_duration message
      in case is_chunk_silent_max_abs message SILENCE_THRESHOLD of
           Inl e \<Rightarrow> (s1, Some e)
         | Inr is_silent_now \<Rightarrow>
             let s2 = silence_gate is_silent_now chunk_duration_seconds s1
             in if relaying_audio s2 then
                  (case send_outcome of
                     Some e \<Rightarrow> (s2, Some e)
                   | None \<Rightarrow> (s2\<lparr>sent := sent s2 @ [message]\<rparr>, None))
                else (s2, None))"
| "handle_message (Text message, send_outcome) s = (print (ReceivedTextMessage message) s, None)"

text \<open>
  The loop over the frames the peer delivers. \<open>closing\<close> is what the iteration does
  once they are used up: \<open>None\<close>, it stops (the connection was closed normally), or
  \<open>Some e\<close>, it raises \<open>e\<close>. The third component of the result is the frames never read.
\<close>

fun receive_loop :: "frame list \<Rightarrow> exn option \<Rightarrow> session \<Rightarrow> session \<times> exn option \<times> frame list" where
  "receive_loop [] closing s = (s, closing, [])"
| "receive_loop (f # fs) closing s =
     (case handle_message f s of
        (s', Some e) \<Rightarrow> (s', Some e, fs)
      | (s', None) \<Rightarrow> receive_loop fs closing s')"

subsection \<open>The output file\<close>

text \<open>
  \<open>str(client_address).replace(old, new)\<close> for a one-character \<open>old\<close>.
\<close>

definition replace :: "char \<Rightarrow> string \<Rightarrow> string \<Rightarrow> string" where
  "replace old new s = concat (map (\<lambda>c. if c = old then new else [c]) s)"

definition sanitize :: "string \<Rightarrow> string" where
  "sanitize client_address =
     replace CHR '','' [] (replace CHR '')'' [] (replace CHR ''('' []
       (replace CHR '':'' ''_'' client_address)))"

text \<open>
  \<open>datetime.datetime.now()\<close>: a calendar date and a time of day, to the microsecond.
\<close>

record datetime =
  year :: nat
  month :: nat
  day :: nat
  hour :: nat
  minute :: nat
  second :: nat
  microsecond :: nat

definition valid_datetime :: "datetime \<Rightarrow> bool" where
  "valid_datetime d \<longleftrightarrow>
     1000 \<le> year d \<and> year d \<le> 9999 \<and> 1 \<le> month d \<and> month d \<le> 12 \<and>
     1 \<le> day d \<and> day d \<le> 31 \<and> hour d < 24 \<and> minute d < 60 \<and> second d < 60 \<and>
     microsecond d < 1000000"

text \<open>
  A number in decimal, zero-padded to \<open>w\<close> digits, as \<open>%m\<close>, \<open>%d\<close>, \<open>%H\<close>, \<open>%M\<close>,
  \<open>%S\<close> (two digits) and \<open>%f\<close> (six) print it; \<open>%Y\<close> prints four digits for the years
  from 1000 on.
\<close>

definition digit_char :: "nat \<Rightarrow> char" where
  "digit_char d = char_of (48 + d)"

fun zero_padded :: "nat \<Rightarrow> nat \<Rightarrow> string" where
  "zero_padded 0 n = []"
| "zero_padded (Suc w) n = zero_padded w (n div 10) @ [digit_char (n mod 10)]"

definition strftime :: "datetime \<Rightarrow> string" where
  "strftime d =
     zero_padded 4 (year d) @ zero_padded 2 (month d) @ zero_padded 2 (day d) @ ''_'' @
     zero_padded 2 (hour d) @ zero_padded 2 (minute d) @ zero_padded 2 (second d) @ ''_'' @
     zero_padded 6 (microsecond d)"

definition OUTPUT_DIR :: string where "OUTPUT_DIR = ''received_audio''"

text \<open>\<open>os.path.join\<close> of two components, on POSIX.\<close>

definition path_join :: "string \<Rightarrow> string \<Rightarrow> string" where
  "path_join a b =
     (if b \<noteq> [] \<and> hd b = CHR ''/'' then b
      else if a = [] \<or> last a = CHR ''/'' then a @ b
      else a @ ''/'' @ b)"

definition output_filename :: "string \<Rightarrow> datetime \<Rightarrow> string" where
  "output_filename client_address now =
     (let sane_client_address = sanitize client_address;
          timestamp = strftime now
      in path_join OUTPUT_DIR (''audio_'' @ sane_client_address @ ''_'' @ timestamp @ ''.wav''))"

text \<open>
  What \<open>wave.open(filename, 'wb')\<close> followed by the three setters and \<open>writeframes\<close>
  leaves in the file: the header parameters and the payload. \<open>fs_outcome\<close> is what
  the file system does to the attempt: \<open>None\<close>, the write goes through, or \<open>Some e\<close>,
  it raises \<open>e\<close>.
\<close>

record wav_file =
  nchannels :: nat
  sampwidth :: nat
  framerate :: nat
  frames :: bytes

definition write_wav :: "exn option \<Rightarrow> bytes list \<Rightarrow> exn + wav_file" where
  "write_wav fs_outcome chunks =
     (case fs_outcome of
        Some e \<Rightarrow> Inl e
      | None \<Rightarrow>
          Inr \<lparr>nchannels = CHANNELS, sampwidth = SAMPLE_WIDTH, framerate = SAMPLE_RATE,
               frames = concat chunks\<rparr>)"

subsection \<open>The handler\<close>

text \<open>
  The \<open>except\<close> clauses of the handler, in their order: each of the three prints and
  swallows the exception; anything that is not an \<open>Exception\<close> stays pending.
\<close>

fun except_clauses :: "exn option \<Rightarrow> session \<Rightarrow> session \<times> exn option" where
  "except_clauses None s = (s, None)"
| "except_clauses (Some ConnectionClosedOK) s = (print DisconnectedNormally s, None)"
| "except_clauses (Some ConnectionClosedError) s = (print DisconnectedWithError s, None)"
| "except_clauses (Some e) s =
     (if is_Exception e then (print ErrorOccurred s, None) else (s, Some e))"

text \<open>
  The \<open>finally\<close> block. \<open>pending\<close> is the exception still in flight when it starts;
  the result holds the file written, if any, and the exception that leaves the handler.
\<close>

definition teardown ::
  "string \<Rightarrow> exn option \<Rightarrow> exn option \<Rightarrow> session \<Rightarrow> session \<times> (string \<times> wav_file) option \<times> exn option"
where
  "teardown filename fs_outcome pending s =
     (let s1 = print RemovedFromConnections s in
      if pcm_data_chunks s1 \<noteq> [] then
        let s2 = print (WritingChunks (length (pcm_data_chunks s1))) s1 in
        case write_wav fs_outcome (pcm_data_chunks s2) of
          Inr f \<Rightarrow> (print SuccessfullySaved s2, Some (filename, f), pending)
        | Inl e \<Rightarrow>
            if is_Exception e then (print ErrorWritingWav s2, None, pending)
            else (s2, None, Some e)
      else (print NoAudioData s1, None, pending))"

record outcome =
  final :: session
  unread :: "frame list"
  written :: "(string \<times> wav_file) option"
  propagated :: "exn option"

definition audio_handler ::
  "string \<Rightarrow> datetime \<Rightarrow> frame list \<Rightarrow> exn option \<Rightarrow> exn option \<Rightarrow> outcome"
where
  "audio_handler client_address now incoming closing fs_outcome =
     (let filename = output_filename client_address now;
          (s1, raised, rest) = receive_loop incoming closing initial_session;
          (s2, pending) = except_clauses raised s1;
          (s3, file, leaving) = teardown filename fs_outcome pending s2
      in \<lparr>final = s3, unread = rest, written = file, propagated = leaving\<rparr>)"

subsection \<open>Notions used to state the properties\<close>

text \<open>The classification of a chunk at the configured threshold, as the loop computes it.\<close>

definition is_silent_now :: "bytes \<Rightarrow> bool" where
  "is_silent_now message \<longleftrightarrow> is_chunk_silent_max_abs message SILENCE_THRESHOLD = Inr True"

text \<open>
  A binary frame whose relay, if attempted, goes out; one pass of the loop body over it;
  and the handler's variables after a sequence of such frames, from the initial state.
\<close>

definition binary_frame :: "bytes \<Rightarrow> frame" where
  "binary_frame message = (Bytes message, None)"

definition relay_step :: "bytes \<Rightarrow> session \<Rightarrow> session" where
  "relay_step message s = fst (handle_message (binary_frame message) s)"

definition after_chunks :: "bytes list \<Rightarrow> session" where
  "after_chunks chunks = fst (receive_loop (map binary_frame chunks) None initial_session)"

text \<open>The longest run of silent chunks at the end of a sequence.\<close>

definition trailing_silent_run :: "bytes list \<Rightarrow> bytes list" where
  "trailing_silent_run chunks = rev (takeWhile is_silent_now (rev chunks))"

text \<open>Durations added up as the loop adds them: from 0.0, in arrival order, in floats.\<close>

definition float_sum :: "rat list \<Rightarrow> rat" where
  "float_sum ds = foldl float_add 0 ds"

text \<open>
  The duration of a chunk as an exact number of seconds, without rounding, and the
  largest relative error of one rounding to 53 bits.
\<close>

definition exact_duration :: "bytes \<Rightarrow> rat" where
  "exact_duration message = of_nat (length message) / of_nat BYTES_PER_SECOND"

definition unit_roundoff :: rat where
  "unit_roundoff = 1 / 2 ^ 53"

text \<open>The payloads of the binary frames among some frames, in order.\<close>

fun binary_frames :: "frame list \<Rightarrow> bytes list" where
  "binary_frames [] = []"
| "binary_frames ((Bytes message, send_outcome) # fs) = message # binary_frames fs"
| "binary_frames ((Text message, send_outcome) # fs) = binary_frames fs"

text \<open>The frames the loop read before it ended: the incoming ones without the unread rest.\<close>

definition received :: "frame list \<Rightarrow> outcome \<Rightarrow> frame list" where
  "received incoming r = take (length incoming - length (unread r)) incoming"

section \<open>Properties\<close>

subsection \<open>The classifier computes the peak of the complete samples\<close>

lemma length_samples: "length (samples bs) = length bs div 2"
  by (induction bs rule: samples.induct) simp_all

lemma unpack_h_slice:
  "i < length bs div 2 \<Longrightarrow>
   unpack_h (slice bs (i * SAMPLE_WIDTH) ((i + 1) * SAMPLE_WIDTH)) = Inr (samples bs ! i)"
proof (induction bs arbitrary: i rule: samples.induct)
  case (1 lo hi rest)
  show ?case
  proof (cases i)
    case 0
    then show ?thesis by (simp add: slice_def SAMPLE_WIDTH_def)
  next
    case (Suc j)
    with 1 have "j < length rest div 2" by simp
    from 1(1)[OF this] Suc show ?thesis by (simp add: slice_def SAMPLE_WIDTH_def)
  qed
qed simp_all

lemma max_abs_loop_foldl:
  "\<forall>i \<in> set is. i < length bs div 2 \<Longrightarrow>
   max_abs_loop bs is m =
     Inr (foldl (\<lambda>m v. if \<bar>v\<bar> > m then \<bar>v\<bar> else m) m (map ((!) (samples bs)) is))"
proof (induction "is" arbitrary: m)
  case Nil
  show ?case by simp
next
  case (Cons i "is")
  from Cons.prems have i: "i < length bs div 2" and rest: "\<forall>i \<in> set is. i < length bs div 2"
    by simp_all
  show ?case
    unfolding max_abs_loop.simps Let_def unpack_h_slice [OF i]
    by (simp add: Cons.IH [OF rest])
qed

lemma max_abs_loop_peak:
  "max_abs_loop bs [0..<length bs div SAMPLE_WIDTH] 0 = Inr (peak (samples bs))"
proof -
  have "map ((!) (samples bs)) [0..<length bs div 2] = samples bs"
    using map_nth [of "samples bs"] by (simp add: length_samples)
  then show ?thesis
    by (simp add: max_abs_loop_foldl peak_def SAMPLE_WIDTH_def)
qed

lemma is_chunk_silent_max_abs_eq:
  "is_chunk_silent_max_abs bs threshold = Inr (bs = [] \<or> peak (samples bs) < threshold)"
  by (simp add: is_chunk_silent_max_abs_def max_abs_loop_peak Let_def)

lemma foldl_peak_step:
  "foldl (\<lambda>m v. if \<bar>v\<bar> > m then \<bar>v\<bar> else m) m vs < t \<longleftrightarrow> m < t \<and> (\<forall>v \<in> set vs. \<bar>v\<bar> < t)"
  for t :: int
  by (induction vs arbitrary: m) auto

lemma peak_less_iff: "peak vs < t \<longleftrightarrow> 0 < t \<and> (\<forall>v \<in> set vs. \<bar>v\<bar> < t)"
  by (simp add: peak_def foldl_peak_step)

lemma foldl_peak_max:
  "foldl (\<lambda>m v. if \<bar>v\<bar> > m then \<bar>v\<bar> else m) m vs = Max (insert m (abs ` set vs))"
  for m :: int
proof (induction vs arbitrary: m)
  case Nil
  show ?case by simp
next
  case (Cons v vs)
  have "Max (insert (max m \<bar>v\<bar>) (abs ` set vs)) = Max (insert m (insert \<bar>v\<bar> (abs ` set vs)))"
    by (cases "set vs = {}") (simp_all add: max.assoc)
  moreover have "(if m < \<bar>v\<bar> then \<bar>v\<bar> else m) = max m \<bar>v\<bar>"
    by (simp add: max_def)
  ultimately show ?case using Cons by simp
qed

lemma peak_Max: "peak vs = Max (insert 0 (abs ` set vs))"
  by (simp add: peak_def foldl_peak_max)

subsection \<open>Rounding to 53 bits\<close>

lemma bit_length_bounds:
  "0 < n \<Longrightarrow> 2 ^ (bit_length n - 1) \<le> n \<and> n < 2 ^ bit_length n"
proof (induction n rule: bit_length.induct)
  case (1 n)
  show ?case
  proof (cases "n div 2 = 0")
    case True
    with 1(2) have "n = 1" by (simp add: div_eq_0_iff)
    then show ?thesis by simp
  next
    case False
    then have pos: "0 < n div 2" by simp
    from 1(2) have n0: "n \<noteq> 0" by simp
    define k where "k = bit_length (n div 2)"
    from 1(1) [OF n0 pos] have IH: "2 ^ (k - 1) \<le> n div 2" "n div 2 < 2 ^ k"
      by (simp_all add: k_def)
    from pos have k: "0 < k" unfolding k_def by (subst bit_length.simps) simp
    have bl: "bit_length n = Suc k"
      unfolding k_def using n0 by (subst bit_length.simps) simp
    from k have "(2::nat) ^ k = 2 * 2 ^ (k - 1)" by (cases k) simp_all
    with IH(1) have lo: "2 ^ k \<le> n" by linarith
    from IH(2) have "n < 2 * 2 ^ k" by linarith
    with lo bl show ?thesis by simp
  qed
qed

lemma ilog2_bounds:
  assumes "0 < x"
  shows "2 powi ilog2 x \<le> x" and "x < 2 powi (ilog2 x + 1)"
proof -
  have "2 powi ilog2 x \<le> x \<and> x < 2 powi (ilog2 x + 1)"
  proof (cases "1 \<le> x")
    case True
    define n where "n = nat \<lfloor>x\<rfloor>"
    from True have n: "0 < n" by (simp add: n_def)
    define k where "k = bit_length n"
    from bit_length_bounds [OF n] have b: "2 ^ (k - 1) \<le> n" "n < 2 ^ k"
      by (simp_all add: k_def)
    from b(2) n have k: "0 < k" by (cases k) simp_all
    have e: "ilog2 x = int (k - 1)" using True k by (simp add: ilog2_def n_def k_def)
    have "of_nat n = (of_int \<lfloor>x\<rfloor> :: rat)" using True by (simp add: n_def)
    then have nx: "of_nat n \<le> x" "x < of_nat n + 1"
      by linarith+
    have "(2::rat) ^ (k - 1) = of_nat (2 ^ (k - 1))" by simp
    also have "\<dots> \<le> of_nat n" using b(1) by (simp only: of_nat_le_iff)
    finally have lo: "(2::rat) ^ (k - 1) \<le> x" using nx(1) by linarith
    have "of_nat n + 1 = (of_nat (Suc n) :: rat)" by simp
    also have "\<dots> \<le> of_nat (2 ^ k)" using b(2) by (simp only: of_nat_le_iff)
    finally have hi: "x < 2 ^ k" using nx(2) by simp
    have "int (k - 1) + 1 = int k" using k by simp
    with lo hi e show ?thesis by (simp add: power_int_of_nat [symmetric] del: power_int_of_nat)
  next
    case False
    with assms have x1: "x < 1" by simp
    define c where "c = nat (\<lceil>1 / x\<rceil> - 1)"
    from assms x1 have "1 < 1 / x" by simp
    then have c2: "2 \<le> \<lceil>1 / x\<rceil>" by linarith
    then have c: "0 < c" by (simp add: c_def)
    have cz: "of_nat c = (of_int (\<lceil>1 / x\<rceil> - 1) :: rat)"
      unfolding c_def using c2 by (intro of_nat_nat) linarith
    have cx: "of_nat c < 1 / x" "1 / x \<le> of_nat c + 1"
      unfolding cz by linarith+
    define k where "k = bit_length c"
    from bit_length_bounds [OF c] have b: "2 ^ (k - 1) \<le> c" "c < 2 ^ k"
      by (simp_all add: k_def)
    from b(2) c have k: "0 < k" by (cases k) simp_all
    have e: "ilog2 x = - int k" using False by (simp add: ilog2_def c_def k_def)
    have "of_nat c + 1 = (of_nat (Suc c) :: rat)" by simp
    also have "\<dots> \<le> of_nat (2 ^ k)" using b(2) by (simp only: of_nat_le_iff)
    finally have "1 / x \<le> 2 ^ k" using cx(2) by simp
    then have lo: "1 / 2 ^ k \<le> x" using assms by (simp add: field_simps)
    have "(2::rat) ^ (k - 1) = of_nat (2 ^ (k - 1))" by simp
    also have "\<dots> \<le> of_nat c" using b(1) by (simp only: of_nat_le_iff)
    finally have "2 ^ (k - 1) < 1 / x" using cx(1) by linarith
    then have hi: "x < 1 / 2 ^ (k - 1)" using assms by (simp add: field_simps)
    have e1: "- int k + 1 = - int (k - 1)" using k by simp
    show ?thesis unfolding e e1 using lo hi by (simp add: power_int_minus_divide)
  qed
  then show "2 powi ilog2 x \<le> x" and "x < 2 powi (ilog2 x + 1)" by simp_all
qed

lemma powi2_less_imp_less:
  "(2::rat) powi a < 2 powi b \<Longrightarrow> a < b"
  by (rule ccontr) (simp add: not_less power_int_increasing leD)

lemma ilog2_unique:
  assumes "2 powi e \<le> x" and "x < 2 powi (e + 1)"
  shows "ilog2 x = e"
proof -
  have pos: "0 < x" using assms(1) by (rule less_le_trans [rotated]) simp
  have "(2::rat) powi e < 2 powi (ilog2 x + 1)"
    using assms(1) ilog2_bounds(2) [OF pos] by simp
  then have "e < ilog2 x + 1" by (rule powi2_less_imp_less)
  moreover have "(2::rat) powi ilog2 x < 2 powi (e + 1)"
    using assms(2) ilog2_bounds(1) [OF pos] by simp
  then have "ilog2 x < e + 1" by (rule powi2_less_imp_less)
  ultimately show ?thesis by simp
qed

lemma round_half_even_of_int: "round_half_even (of_int n) = n"
  by (simp add: round_half_even_def)

lemma round_half_even_range:
  "\<lfloor>x\<rfloor> \<le> round_half_even x" "round_half_even x \<le> \<lfloor>x\<rfloor> + 1"
  by (simp_all add: round_half_even_def Let_def)

lemma round_half_even_mono:
  assumes "x \<le> y"
  shows "round_half_even x \<le> round_half_even y"
proof (cases "\<lfloor>x\<rfloor> = \<lfloor>y\<rfloor>")
  case True
  with assms have "x - of_int \<lfloor>x\<rfloor> \<le> y - of_int \<lfloor>y\<rfloor>" by simp
  with True show ?thesis by (auto simp add: round_half_even_def Let_def)
next
  case False
  with assms have "\<lfloor>x\<rfloor> + 1 \<le> \<lfloor>y\<rfloor>" using floor_mono [OF assms] by simp
  with round_half_even_range(2) [of x] round_half_even_range(1) [of y]
  show ?thesis by linarith
qed

lemma powi2_split: "(2::rat) powi e = 2 ^ 52 * 2 powi (e - 52)"
proof -
  have "(2::rat) powi (52 + (e - 52)) = 2 powi 52 * 2 powi (e - 52)"
    by (rule power_int_add) simp
  then show ?thesis by simp
qed

lemma powi2_Suc: "(2::rat) powi (e + 1) = 2 * 2 powi e"
  by (simp add: power_int_add)

lemma scaled_range:
  assumes "0 < x"
  shows "2 ^ 52 \<le> x / 2 powi (ilog2 x - 52)" and "x / 2 powi (ilog2 x - 52) < 2 ^ 53"
proof -
  let ?u = "(2::rat) powi (ilog2 x - 52)"
  have u: "0 < ?u" by simp
  have "2 ^ 52 * ?u \<le> x"
    using ilog2_bounds(1) [OF assms] powi2_split [of "ilog2 x"] by simp
  then show "2 ^ 52 \<le> x / ?u" using u by (simp add: pos_le_divide_eq)
  have "x < 2 * (2 ^ 52 * ?u)"
    using ilog2_bounds(2) [OF assms] powi2_split [of "ilog2 x"] powi2_Suc [of "ilog2 x"] by simp
  then have "x < 2 ^ 53 * ?u" by simp
  then show "x / ?u < 2 ^ 53" using u by (simp add: pos_divide_less_eq)
qed

lemma mantissa_range:
  assumes "0 < x"
  shows "2 ^ 52 \<le> round_half_even (x / 2 powi (ilog2 x - 52))"
    and "round_half_even (x / 2 powi (ilog2 x - 52)) \<le> 2 ^ 53"
proof -
  let ?q = "x / 2 powi (ilog2 x - 52)"
  have "round_half_even (of_int (2 ^ 52)) \<le> round_half_even ?q"
    using scaled_range(1) [OF assms] by (intro round_half_even_mono) simp
  then show "2 ^ 52 \<le> round_half_even ?q" by (simp only: round_half_even_of_int)
  have "round_half_even ?q \<le> round_half_even (of_int (2 ^ 53))"
    using scaled_range(2) [OF assms] by (intro round_half_even_mono) simp
  then show "round_half_even ?q \<le> 2 ^ 53" by (simp only: round_half_even_of_int)
qed

lemma round53_pos:
  "0 < x \<Longrightarrow>
   round53 x = of_int (round_half_even (x / 2 powi (ilog2 x - 52))) * 2 powi (ilog2 x - 52)"
  by (simp add: round53_def Let_def)

lemma round53_bounds:
  assumes "0 < x"
  shows "2 powi ilog2 x \<le> round53 x" and "round53 x \<le> 2 powi (ilog2 x + 1)"
proof -
  let ?u = "(2::rat) powi (ilog2 x - 52)"
  let ?m = "round_half_even (x / ?u)"
  have u: "0 < ?u" by simp
  have "(of_int (2 ^ 52) :: rat) \<le> of_int ?m"
    using mantissa_range(1) [OF assms] by (simp only: of_int_le_iff)
  then have "2 ^ 52 * ?u \<le> of_int ?m * ?u" using u by simp
  then show "2 powi ilog2 x \<le> round53 x"
    using powi2_split [of "ilog2 x"] round53_pos [OF assms] by simp
  have "(of_int ?m :: rat) \<le> of_int (2 ^ 53)"
    using mantissa_range(2) [OF assms] by (simp only: of_int_le_iff)
  then have "of_int ?m * ?u \<le> 2 ^ 53 * ?u" using u by simp
  then show "round53 x \<le> 2 powi (ilog2 x + 1)"
    using powi2_split [of "ilog2 x"] powi2_Suc [of "ilog2 x"] round53_pos [OF assms] by simp
qed

lemma round53_0: "round53 0 = 0"
  by (simp add: round53_def)

lemma round53_pos_pos: "0 < x \<Longrightarrow> 0 < round53 x"
  using round53_bounds(1) [of x] by (rule_tac less_le_trans [of _ "2 powi ilog2 x"]) simp_all

lemma round53_representable:
  assumes "2 ^ 52 \<le> m" and "m < 2 ^ 53"
  shows "round53 (of_int m * 2 powi k) = of_int m * 2 powi k"
proof -
  let ?x = "of_int m * (2::rat) powi k"
  have m: "(of_int (2 ^ 52) :: rat) \<le> of_int m" "(of_int m :: rat) < of_int (2 ^ 53)"
    using assms by (simp_all only: of_int_le_iff of_int_less_iff)
  have k: "0 < (2::rat) powi k" by simp
  have pos: "0 < ?x" using m(1) k by (intro mult_pos_pos) simp_all
  have "2 ^ 52 * 2 powi k \<le> ?x" using m(1) k by simp
  moreover have "?x < 2 * (2 ^ 52 * 2 powi k)" using m(2) k by simp
  ultimately have "ilog2 ?x = k + 52"
    using powi2_split [of "k + 52"] powi2_Suc [of "k + 52"]
    by (intro ilog2_unique) simp_all
  then show ?thesis using pos by (simp add: round53_pos round_half_even_of_int)
qed

lemma round53_idem: "0 \<le> x \<Longrightarrow> round53 (round53 x) = round53 x"
proof (cases "x = 0")
  case True
  then show ?thesis by (simp add: round53_0)
next
  case False
  assume "0 \<le> x"
  with False have pos: "0 < x" by simp
  let ?u = "(2::rat) powi (ilog2 x - 52)"
  let ?m = "round_half_even (x / ?u)"
  note r = round53_pos [OF pos]
  show ?thesis
  proof (cases "?m = 2 ^ 53")
    case True
    have "(2::rat) powi (ilog2 x - 52 + 1) = 2 * ?u" by (rule powi2_Suc)
    then have "round53 x = of_int (2 ^ 52) * 2 powi (ilog2 x - 52 + 1)"
      using r True by simp
    moreover have "round53 (of_int (2 ^ 52) * 2 powi (ilog2 x - 52 + 1)) =
        of_int (2 ^ 52) * 2 powi (ilog2 x - 52 + 1)"
      by (rule round53_representable) simp_all
    ultimately show ?thesis by (simp only:)
  next
    case False
    with mantissa_range [OF pos] have "2 ^ 52 \<le> ?m" "?m < 2 ^ 53" by simp_all
    from round53_representable [OF this] r show ?thesis by simp
  qed
qed

lemma ilog2_mono:
  assumes "0 < x" and "x \<le> y"
  shows "ilog2 x \<le> ilog2 y"
proof -
  from assms have y: "0 < y" by simp
  have "2 powi ilog2 x < (2::rat) powi (ilog2 y + 1)"
    using ilog2_bounds(1) [OF assms(1)] ilog2_bounds(2) [OF y] assms(2) by linarith
  then have "ilog2 x < ilog2 y + 1" by (rule powi2_less_imp_less)
  then show ?thesis by simp
qed

lemma round53_mono:
  assumes "0 \<le> x" and "x \<le> y"
  shows "round53 x \<le> round53 y"
proof (cases "x = 0")
  case True
  show ?thesis
  proof (cases "y = 0")
    case True
    with \<open>x = 0\<close> show ?thesis by simp
  next
    case False
    with assms have "0 < y" by simp
    from round53_pos_pos [OF this] \<open>x = 0\<close> show ?thesis by (simp add: round53_0)
  qed
next
  case False
  with assms have x: "0 < x" and y: "0 < y" by simp_all
  show ?thesis
  proof (cases "ilog2 x = ilog2 y")
    case True
    let ?u = "(2::rat) powi (ilog2 y - 52)"
    have "x / ?u \<le> y / ?u" using assms(2) by (simp add: divide_right_mono)
    then have "round_half_even (x / ?u) \<le> round_half_even (y / ?u)"
      by (rule round_half_even_mono)
    then have "(of_int (round_half_even (x / ?u)) :: rat) * ?u \<le> of_int (round_half_even (y / ?u)) * ?u"
      by simp
    then show ?thesis using True by (simp add: round53_pos [OF x] round53_pos [OF y])
  next
    case False
    with ilog2_mono [OF x assms(2)] have "ilog2 x + 1 \<le> ilog2 y" by simp
    then have "(2::rat) powi (ilog2 x + 1) \<le> 2 powi ilog2 y"
      by (intro power_int_increasing) simp_all
    with round53_bounds(2) [OF x] round53_bounds(1) [OF y] show ?thesis by linarith
  qed
qed

subsection \<open>One pass of the loop body\<close>

lemma is_silent_now_eq: "is_silent_now c \<longleftrightarrow> c = [] \<or> peak (samples c) < SILENCE_THRESHOLD"
  by (simp add: is_silent_now_def is_chunk_silent_max_abs_eq)

lemma classifier_is_silent_now:
  "is_chunk_silent_max_abs c SILENCE_THRESHOLD = Inr (is_silent_now c)"
  by (simp add: is_silent_now_eq is_chunk_silent_max_abs_eq)

lemma handle_message_binary:
  "handle_message (binary_frame c) s = (relay_step c s, None)"
  by (simp add: relay_step_def binary_frame_def classifier_is_silent_now Let_def)

lemma receive_loop_binary:
  "receive_loop (map binary_frame cs) None s = (foldl (\<lambda>s c. relay_step c s) s cs, None, [])"
  by (induction cs arbitrary: s) (simp_all add: handle_message_binary)

lemma after_chunks_Nil: "after_chunks [] = initial_session"
  by (simp add: after_chunks_def)

lemma after_chunks_snoc: "after_chunks (cs @ [c]) = relay_step c (after_chunks cs)"
  by (simp add: after_chunks_def receive_loop_binary del: map_append)

lemma relay_step_pcm: "pcm_data_chunks (relay_step c s) = pcm_data_chunks s @ [c]"
  by (simp add: relay_step_def binary_frame_def classifier_is_silent_now Let_def
      silence_gate_def print_def)

lemma relay_step_acc:
  "current_silence_accumulated_duration (relay_step c s) =
     (if is_silent_now c
      then float_add (current_silence_accumulated_duration s) (chunk_duration c) else 0)"
  by (simp add: relay_step_def binary_frame_def classifier_is_silent_now Let_def
      silence_gate_def print_def)

lemma relay_step_relaying:
  "relaying_audio (relay_step c s) \<longleftrightarrow>
     (if is_silent_now c
      then relaying_audio s \<and>
        \<not> MAX_SILENCE_SECONDS \<le> float_add (current_silence_accumulated_duration s) (chunk_duration c)
      else True)"
  by (simp add: relay_step_def binary_frame_def classifier_is_silent_now Let_def
      silence_gate_def print_def)

lemma relay_step_sent:
  "sent (relay_step c s) = (if relaying_audio (relay_step c s) then sent s @ [c] else sent s)"
  by (simp add: relay_step_def binary_frame_def classifier_is_silent_now Let_def
      silence_gate_def print_def)

subsection \<open>Chunk durations and some chunks to compute with\<close>

lemma BYTES_PER_SECOND_eq: "BYTES_PER_SECOND = 32000"
  by (simp add: BYTES_PER_SECOND_def BYTES_PER_SAMPLE_def SAMPLE_RATE_def CHANNELS_def
      SAMPLE_WIDTH_def)

lemma round53_half: "round53 (1 / 2) = 1 / 2"
  by code_simp

lemma round53_1: "round53 1 = 1"
  by code_simp

lemma round53_below_1: "round53 (31999 / 32000) < 1"
  by code_simp

lemma round53_nonneg: "0 \<le> x \<Longrightarrow> 0 \<le> round53 x"
  using round53_mono [of 0 x] by (simp add: round53_0)

lemma chunk_duration_eq: "chunk_duration c = round53 (of_nat (length c) / 32000)"
  by (simp add: chunk_duration_def int_truediv_def BYTES_PER_SECOND_eq)

lemma chunk_duration_nonneg: "0 \<le> chunk_duration c"
  by (simp add: chunk_duration_eq round53_nonneg)

lemma chunk_duration_float: "round53 (chunk_duration c) = chunk_duration c"
  by (simp add: chunk_duration_eq round53_idem)

lemma chunk_duration_half_second: "length c = 16000 \<Longrightarrow> chunk_duration c = 1 / 2"
  by (simp add: chunk_duration_eq round53_half)

lemma chunk_duration_ge_max:
  "MAX_SILENCE_SECONDS \<le> chunk_duration c \<longleftrightarrow> 32000 \<le> length c"
proof (cases "32000 \<le> length c")
  case True
  then have "(1::rat) \<le> of_nat (length c) / 32000" by simp
  then have "round53 1 \<le> round53 (of_nat (length c) / 32000)"
    by (intro round53_mono) simp_all
  with True show ?thesis by (simp add: chunk_duration_eq round53_1 MAX_SILENCE_SECONDS_def)
next
  case False
  then have "length c \<le> 31999" by simp
  then have "(of_nat (length c) :: rat) \<le> of_nat 31999" by (simp only: of_nat_le_iff)
  then have "(of_nat (length c) :: rat) / 32000 \<le> 31999 / 32000" by simp
  then have "round53 (of_nat (length c) / 32000) \<le> round53 (31999 / 32000)"
    by (intro round53_mono) simp_all
  with round53_below_1 False show ?thesis
    by (simp add: chunk_duration_eq MAX_SILENCE_SECONDS_def)
qed

lemma float_add_0: "float_add 0 (chunk_duration c) = chunk_duration c"
  by (simp add: float_add_def chunk_duration_float)

lemma float_add_halves: "float_add (1 / 2) (1 / 2) = 1"
  by (simp add: float_add_def round53_1)

lemma samples_zeros: "samples (replicate (2 * n) 0) = replicate n 0"
  by (induction n) simp_all

lemma peak_Cons: "peak (v # vs) = max \<bar>v\<bar> (peak vs)"
  by (simp add: peak_Max) (metis List.finite_set Max_insert empty_not_insert finite_imageI finite_insert insert_commute)

lemma peak_zeros: "peak (replicate n 0) = 0"
  by (induction n) (simp_all add: peak_def)

lemma peak_ge: "v \<in> set vs \<Longrightarrow> \<bar>v\<bar> \<le> peak vs"
  by (simp add: peak_Max)

subsection \<open>The scenario of three quiet half-second chunks\<close>

lemma after_chunks_foldl: "after_chunks cs = foldl (\<lambda>s c. relay_step c s) initial_session cs"
  by (simp add: after_chunks_def receive_loop_binary)

lemma float_add_0_half: "float_add 0 (1 / 2) = 1 / 2"
  by (simp add: float_add_def round53_half)

lemma float_add_1_half: "float_add 1 (1 / 2) = 3 / 2"
proof -
  have "round53 (3 / 2) = 3 / 2" by code_simp
  then show ?thesis by (simp add: float_add_def)
qed

lemma quiet_is_silent: "peak (samples c) = 50 \<Longrightarrow> is_silent_now c"
  by (simp add: is_silent_now_eq SILENCE_THRESHOLD_def)

lemma loud_is_not_silent:
  assumes "v \<in> set (samples c)" and "SILENCE_THRESHOLD \<le> \<bar>v\<bar>"
  shows "\<not> is_silent_now c"
proof -
  from assms(1) have "c \<noteq> []" by auto
  moreover from peak_ge [OF assms(1)] assms(2) have "\<not> peak (samples c) < SILENCE_THRESHOLD"
    by simp
  ultimately show ?thesis by (simp add: is_silent_now_eq)
qed

lemma scenario_trace:
  assumes len: "length c1 = 16000" "length c2 = 16000" "length c3 = 16000"
    and quiet: "peak (samples c1) = 50" "peak (samples c2) = 50" "peak (samples c3) = 50"
    and loud: "v \<in> set (samples c4)" "\<bar>v\<bar> = 2000"
  shows "sent (after_chunks [c1]) = [c1]"
    and "relaying_audio (after_chunks [c1])"
    and "sent (after_chunks [c1, c2]) = [c1]"
    and "\<not> relaying_audio (after_chunks [c1, c2])"
    and "sent (after_chunks [c1, c2, c3]) = [c1]"
    and "\<not> relaying_audio (after_chunks [c1, c2, c3])"
    and "sent (after_chunks [c1, c2, c3, c4]) = [c1, c4]"
    and "relaying_audio (after_chunks [c1, c2, c3, c4])"
    and "current_silence_accumulated_duration (after_chunks [c1, c2, c3, c4]) = 0"
proof -
  note s = quiet [THEN quiet_is_silent]
  have l: "\<not> is_silent_now c4"
    using loud by (intro loud_is_not_silent [of v]) (simp_all add: SILENCE_THRESHOLD_def)
  note d = len [THEN chunk_duration_half_second]
  note step = after_chunks_foldl relay_step_sent relay_step_relaying relay_step_acc
    float_add_0_half float_add_halves float_add_1_half MAX_SILENCE_SECONDS_def
  have i: "current_silence_accumulated_duration initial_session = 0"
    "relaying_audio initial_session" "sent initial_session = []"
    by (simp_all add: initial_session_def)
  show "sent (after_chunks [c1]) = [c1]" by (simp add: step s d i)
  show "relaying_audio (after_chunks [c1])" by (simp add: step s d i)
  show "sent (after_chunks [c1, c2]) = [c1]" by (simp add: step s d i)
  show "\<not> relaying_audio (after_chunks [c1, c2])" by (simp add: step s d i)
  show "sent (after_chunks [c1, c2, c3]) = [c1]" by (simp add: step s d i)
  show "\<not> relaying_audio (after_chunks [c1, c2, c3])" by (simp add: step s d i)
  show "sent (after_chunks [c1, c2, c3, c4]) = [c1, c4]" by (simp add: step s l d i)
  show "relaying_audio (after_chunks [c1, c2, c3, c4])" by (simp add: step s l d i)
  show "current_silence_accumulated_duration (after_chunks [c1, c2, c3, c4]) = 0"
    by (simp add: step s l d i)
qed

lemma quiet_chunk_facts:
  "length ([50, 0] @ replicate 15998 (0::byte)) = 16000"
  "peak (samples ([50, 0] @ replicate 15998 0)) = 50"
proof -
  show "length ([50, 0] @ replicate 15998 (0::byte)) = 16000" by simp
  have "samples (replicate 15998 0) = replicate 7999 0"
    using samples_zeros [of 7999] by simp
  then show "peak (samples ([50, 0] @ replicate 15998 0)) = 50"
    by (simp add: peak_Cons peak_zeros)
qed

lemma loud_chunk_facts: "2000 \<in> set (samples [208, 7])"
  by simp

text \<open>
  Claim C1, as amended. With threshold 800 and a maximal silence of 1.0 s, three
  chunks of 0.5 s (16000 bytes) with peak amplitude 50 are all silent. Chunk 1 is
  relayed. Chunk 2 brings the accumulated silence to 1.0 s, which reaches the maximum:
  the gate pauses at chunk 2 and chunk 2 is withheld, and so is chunk 3. A fourth chunk
  with a sample of amplitude 2000 is relayed, the gate relays again and the accumulator
  is back at 0.
\<close>

theorem scenario_pauses_at_second_chunk:
  assumes "length c1 = 16000" and "length c2 = 16000" and "length c3 = 16000"
    and "peak (samples c1) = 50" and "peak (samples c2) = 50" and "peak (samples c3) = 50"
    and "v \<in> set (samples c4)" and "\<bar>v\<bar> = 2000"
  shows "sent (after_chunks [c1]) = [c1] \<and> relaying_audio (after_chunks [c1]) \<and>
    sent (after_chunks [c1, c2]) = [c1] \<and> \<not> relaying_audio (after_chunks [c1, c2]) \<and>
    sent (after_chunks [c1, c2, c3]) = [c1] \<and> \<not> relaying_audio (after_chunks [c1, c2, c3]) \<and>
    sent (after_chunks [c1, c2, c3, c4]) = [c1, c4] \<and>
    relaying_audio (after_chunks [c1, c2, c3, c4]) \<and>
    current_silence_accumulated_duration (after_chunks [c1, c2, c3, c4]) = 0"
  using scenario_trace [OF assms] by simp

theorem scenario_pauses_at_second_chunk_witness:
  "length ([50, 0] @ replicate 15998 (0::byte)) = 16000 \<and>
   peak (samples ([50, 0] @ replicate 15998 0)) = 50 \<and>
   2000 \<in> set (samples [208, 7]) \<and> \<bar>2000 :: int\<bar> = 2000 \<and>
   sent (after_chunks [[50, 0] @ replicate 15998 0, [50, 0] @ replicate 15998 0,
     [50, 0] @ replicate 15998 0, [208, 7]]) = [[50, 0] @ replicate 15998 0, [208, 7]] \<and>
   current_silence_accumulated_duration (after_chunks [[50, 0] @ replicate 15998 0,
     [50, 0] @ replicate 15998 0, [50, 0] @ replicate 15998 0, [208, 7]]) = 0"
proof -
  have a: "\<bar>2000 :: int\<bar> = 2000" by simp
  note q = quiet_chunk_facts
  from scenario_pauses_at_second_chunk [OF q(1) q(1) q(1) q(2) q(2) q(2) loud_chunk_facts a]
  show ?thesis using q loud_chunk_facts a by (elim conjE, intro conjI) assumption+
qed

text \<open>
  Claim C1, as stated, fails: of two quiet half-second chunks the second is not relayed,
  and the gate is paused after it, not after a third.
\<close>

theorem scenario_second_chunk_withheld:
  "length ([50, 0] @ replicate 15998 (0::byte)) = 16000 \<and>
   peak (samples ([50, 0] @ replicate 15998 0)) = 50 \<and>
   sent (after_chunks [[50, 0] @ replicate 15998 0, [50, 0] @ replicate 15998 0]) =
     [[50, 0] @ replicate 15998 0] \<and>
   \<not> relaying_audio (after_chunks [[50, 0] @ replicate 15998 0, [50, 0] @ replicate 15998 0])"
proof -
  note q = quiet_chunk_facts
  from scenario_trace(3,4) [OF q(1) q(1) q(1) q(2) q(2) q(2) loud_chunk_facts]
  show ?thesis using q by simp
qed

subsection \<open>The first chunk\<close>

lemma first_chunk_sent:
  "sent (after_chunks [c]) = (if is_silent_now c \<and> 32000 \<le> length c then [] else [c])"
  by (simp add: after_chunks_foldl relay_step_sent relay_step_relaying float_add_0
      chunk_duration_ge_max initial_session_def)

lemma zeros_silent: "is_silent_now (replicate (2 * n) 0)"
  by (simp add: is_silent_now_eq samples_zeros peak_zeros SILENCE_THRESHOLD_def)

text \<open>
  Claim C2, as stated, fails: a first chunk of one second of digital silence (32000
  zero bytes) is not relayed.
\<close>

theorem first_chunk_of_one_silent_second_withheld:
  "sent (after_chunks [replicate 32000 0]) = []"
  using zeros_silent [of 16000] by (simp add: first_chunk_sent)

text \<open>
  Claim C2, as amended. The first chunk received after session creation is relayed,
  unless it is classified silent and lasts at least \<open>MAX_SILENCE_SECONDS\<close> (it is at
  least 32000 bytes long); then it is withheld.
\<close>

theorem first_chunk_relayed_unless_long_silence:
  "sent (after_chunks [c]) = (if is_silent_now c \<and> 32000 \<le> length c then [] else [c])"
  by (rule first_chunk_sent)

theorem first_chunk_relayed_unless_long_silence_witness:
  "sent (after_chunks [[208, 7]]) = [[208, 7]]"
  using first_chunk_relayed_unless_long_silence [of "[208, 7]"] by simp

subsection \<open>What is relayed\<close>

lemma withheld_is_silent: "\<not> relaying_audio (relay_step c s) \<Longrightarrow> is_silent_now c"
  by (simp add: relay_step_relaying split: if_splits)

lemma relayed_indices_snoc:
  "filter (\<lambda>i. relaying_audio (after_chunks (take (Suc i) (cs @ [c])))) [0..<length (cs @ [c])] =
   filter (\<lambda>i. relaying_audio (after_chunks (take (Suc i) cs))) [0..<length cs] @
   (if relaying_audio (after_chunks (cs @ [c])) then [length cs] else [])"
proof -
  have "filter (\<lambda>i. relaying_audio (after_chunks (take (Suc i) (cs @ [c])))) [0..<length cs] =
      filter (\<lambda>i. relaying_audio (after_chunks (take (Suc i) cs))) [0..<length cs]"
    by (rule filter_cong) simp_all
  then show ?thesis by simp
qed

lemma sent_after_chunks:
  "sent (after_chunks cs) =
     map ((!) cs) (filter (\<lambda>i. relaying_audio (after_chunks (take (Suc i) cs))) [0..<length cs])"
proof (induction cs rule: rev_induct)
  case Nil
  show ?case by (simp add: after_chunks_Nil initial_session_def)
next
  case (snoc c cs)
  have "map ((!) (cs @ [c])) (filter (\<lambda>i. relaying_audio (after_chunks (take (Suc i) cs))) [0..<length cs]) =
      map ((!) cs) (filter (\<lambda>i. relaying_audio (after_chunks (take (Suc i) cs))) [0..<length cs])"
    by (rule map_cong) (simp_all add: nth_append)
  with snoc show ?case
    unfolding relayed_indices_snoc by (simp add: after_chunks_snoc relay_step_sent)
qed

lemma sent_subseq: "subseq (sent (after_chunks cs)) cs"
proof (induction cs rule: rev_induct)
  case Nil
  show ?case by (simp add: after_chunks_Nil initial_session_def)
next
  case (snoc c cs)
  then have "subseq (sent (after_chunks cs) @ [c]) (cs @ [c])"
    and "subseq (sent (after_chunks cs)) (cs @ [c])"
    by (simp_all add: list_emb_append_mono subseq_rev_drop_many)
  then show ?case by (simp add: after_chunks_snoc relay_step_sent)
qed

lemma omitted_is_silent:
  assumes "i < length cs" and "\<not> relaying_audio (after_chunks (take (Suc i) cs))"
  shows "is_silent_now (cs ! i)"
proof -
  from assms(1) have "take (Suc i) cs = take i cs @ [cs ! i]"
    by (rule take_Suc_conv_app_nth)
  with assms(2) show ?thesis by (auto simp add: after_chunks_snoc dest: withheld_is_silent)
qed

lemma first_chunk_relaying:
  "relaying_audio (after_chunks [c]) \<longleftrightarrow> \<not> (is_silent_now c \<and> 32000 \<le> length c)"
  by (simp add: after_chunks_foldl relay_step_relaying float_add_0
      chunk_duration_ge_max initial_session_def)

lemma speech_not_silent: "\<not> is_silent_now [208, 7]"
  by (rule loud_is_not_silent [of 2000]) (simp_all add: SILENCE_THRESHOLD_def)

lemma relaying_after_speech: "\<not> is_silent_now c \<Longrightarrow> relaying_audio (after_chunks (cs @ [c]))"
  by (simp add: after_chunks_snoc relay_step_relaying)

text \<open>
  Claim C3. For every sequence of binary chunks processed from the initial state, the
  chunks relayed, in send order, are the received chunks at exactly those positions
  where the gate relays after its update, in their order and unchanged: a subsequence
  of the received chunks. Every chunk left out is a silent one met while paused.
\<close>

theorem relayed_chunks_are_those_not_paused:
  "sent (after_chunks cs) =
     map ((!) cs) (filter (\<lambda>i. relaying_audio (after_chunks (take (Suc i) cs))) [0..<length cs]) \<and>
   subseq (sent (after_chunks cs)) cs \<and>
   (\<forall>i < length cs. \<not> relaying_audio (after_chunks (take (Suc i) cs)) \<longrightarrow> is_silent_now (cs ! i))"
  using sent_after_chunks [of cs] sent_subseq [of cs] omitted_is_silent [of _ cs] by blast

theorem relayed_chunks_are_those_not_paused_witness:
  "sent (after_chunks [replicate 32000 0, [208, 7]]) = [[208, 7]] \<and>
   \<not> relaying_audio (after_chunks (take (Suc 0) [replicate 32000 0, [208, 7]])) \<and>
   is_silent_now ([replicate 32000 0, [208, 7]] ! 0)"
proof -
  let ?W = "[replicate 32000 (0::byte), [208, 7]]"
  have paused: "\<not> relaying_audio (after_chunks (take (Suc 0) ?W))"
    using zeros_silent [of 16000] by (simp add: first_chunk_relaying)
  have resumed: "relaying_audio (after_chunks (take (Suc (Suc 0)) ?W))"
    using relaying_after_speech [OF speech_not_silent, of "[replicate 32000 0]"] by simp
  have idx: "[0..<length ?W] = [0, Suc 0]" by (simp add: upt_rec)
  note inst = relayed_chunks_are_those_not_paused [of ?W]
  from inst have "sent (after_chunks ?W) =
      map ((!) ?W) (filter (\<lambda>i. relaying_audio (after_chunks (take (Suc i) ?W))) [0..<length ?W])"
    by (elim conjE)
  then have "sent (after_chunks ?W) = [[208, 7]]"
    unfolding idx using paused resumed by simp
  moreover from inst have "\<forall>i < length ?W.
      \<not> relaying_audio (after_chunks (take (Suc i) ?W)) \<longrightarrow> is_silent_now (?W ! i)"
    by (elim conjE)
  then have "\<not> relaying_audio (after_chunks (take (Suc 0) ?W)) \<longrightarrow> is_silent_now (?W ! 0)"
    by (elim allE [of _ 0]) simp
  with paused have "is_silent_now (?W ! 0)" by (elim impE)
  ultimately show ?thesis using paused by simp
qed

subsection \<open>The silence accumulator\<close>

lemma trailing_silent_run_snoc:
  "trailing_silent_run (cs @ [c]) = (if is_silent_now c then trailing_silent_run cs @ [c] else [])"
  by (simp add: trailing_silent_run_def)

lemma float_sum_snoc: "float_sum (ds @ [d]) = float_add (float_sum ds) d"
  by (simp add: float_sum_def)

lemma accumulator_eq:
  "current_silence_accumulated_duration (after_chunks cs) =
     float_sum (map chunk_duration (trailing_silent_run cs))"
proof (induction cs rule: rev_induct)
  case Nil
  show ?case
    by (simp add: after_chunks_Nil initial_session_def trailing_silent_run_def float_sum_def)
next
  case (snoc c cs)
  then show ?case
    by (simp add: after_chunks_snoc relay_step_acc trailing_silent_run_snoc float_sum_snoc)
      (simp add: float_sum_def)
qed

lemma accumulator_float:
  "0 \<le> current_silence_accumulated_duration (after_chunks cs) \<and>
   round53 (current_silence_accumulated_duration (after_chunks cs)) =
     current_silence_accumulated_duration (after_chunks cs)"
proof (induction cs rule: rev_induct)
  case Nil
  show ?case by (simp add: after_chunks_Nil initial_session_def round53_0)
next
  case (snoc c cs)
  let ?a = "current_silence_accumulated_duration (after_chunks cs)"
  from snoc chunk_duration_nonneg [of c] have "0 \<le> ?a + chunk_duration c" by simp
  then have "0 \<le> round53 (?a + chunk_duration c)"
    and "round53 (round53 (?a + chunk_duration c)) = round53 (?a + chunk_duration c)"
    by (simp_all add: round53_nonneg round53_idem)
  then show ?case
    by (simp add: after_chunks_snoc relay_step_acc float_add_def round53_0)
qed

lemma accumulator_grows:
  assumes "is_silent_now c"
  shows "current_silence_accumulated_duration (after_chunks cs) \<le>
    current_silence_accumulated_duration (after_chunks (cs @ [c]))"
proof -
  let ?a = "current_silence_accumulated_duration (after_chunks cs)"
  from accumulator_float [of cs] have a: "0 \<le> ?a" "round53 ?a = ?a" by simp_all
  from a(1) chunk_duration_nonneg [of c] have "round53 ?a \<le> round53 (?a + chunk_duration c)"
    by (intro round53_mono) simp_all
  with a(2) assms show ?thesis
    by (simp add: after_chunks_snoc relay_step_acc float_add_def)
qed

lemma accumulator_reset:
  "\<not> is_silent_now c \<Longrightarrow> current_silence_accumulated_duration (after_chunks (cs @ [c])) = 0"
  by (simp add: after_chunks_snoc relay_step_acc)

lemma round_half_even_error: "\<bar>of_int (round_half_even y) - y\<bar> \<le> 1 / 2"
proof -
  have "of_int \<lfloor>y\<rfloor> \<le> y" "y < of_int \<lfloor>y\<rfloor> + 1" by linarith+
  then show ?thesis by (auto simp add: round_half_even_def Let_def abs_le_iff)
qed

lemma round53_error:
  assumes "0 < x"
  shows "\<bar>round53 x - x\<bar> \<le> unit_roundoff * x"
proof -
  let ?u = "(2::rat) powi (ilog2 x - 52)"
  let ?m = "round_half_even (x / ?u)"
  have u: "0 < ?u" by simp
  have "round53 x - x = (of_int ?m - x / ?u) * ?u"
    using u by (simp add: round53_pos [OF assms] left_diff_distrib)
  then have "\<bar>round53 x - x\<bar> = \<bar>of_int ?m - x / ?u\<bar> * ?u"
    using u by (simp add: abs_mult)
  also have "\<dots> \<le> 1 / 2 * ?u"
    using round_half_even_error [of "x / ?u"] u by (intro mult_right_mono) simp_all
  also have "1 / 2 * ?u = unit_roundoff * (2 ^ 52 * ?u)"
    by (simp add: unit_roundoff_def)
  also have "\<dots> \<le> unit_roundoff * x"
    using ilog2_bounds(1) [OF assms] powi2_split [of "ilog2 x"]
    by (intro mult_left_mono) (simp_all add: unit_roundoff_def)
  finally show ?thesis .
qed

lemma round53_relative:
  assumes "0 \<le> x"
  shows "(1 - unit_roundoff) * x \<le> round53 x" and "round53 x \<le> (1 + unit_roundoff) * x"
proof -
  have "(1 - unit_roundoff) * x \<le> round53 x \<and> round53 x \<le> (1 + unit_roundoff) * x"
  proof (cases "x = 0")
    case True
    then show ?thesis by (simp add: round53_0)
  next
    case False
    with assms have "0 < x" by simp
    from round53_error [OF this] show ?thesis by (simp add: abs_le_iff algebra_simps)
  qed
  then show "(1 - unit_roundoff) * x \<le> round53 x" and "round53 x \<le> (1 + unit_roundoff) * x"
    by simp_all
qed

lemma unit_roundoff_range: "0 < unit_roundoff" "unit_roundoff < 1"
  by (simp_all add: unit_roundoff_def)

lemma exact_duration_nonneg: "0 \<le> exact_duration c"
  by (simp add: exact_duration_def)

lemma chunk_duration_exact: "chunk_duration c = round53 (exact_duration c)"
  by (simp add: chunk_duration_def int_truediv_def exact_duration_def)

lemma float_sum_bounds:
  "(1 - unit_roundoff) ^ Suc (length cs) * sum_list (map exact_duration cs)
     \<le> float_sum (map chunk_duration cs) \<and>
   float_sum (map chunk_duration cs)
     \<le> (1 + unit_roundoff) ^ Suc (length cs) * sum_list (map exact_duration cs)"
proof (induction cs rule: rev_induct)
  case Nil
  show ?case by (simp add: float_sum_def)
next
  case (snoc c cs)
  define u where "u = unit_roundoff"
  define n where "n = Suc (length cs)"
  define E where "E = sum_list (map exact_duration cs)"
  define F where "F = float_sum (map chunk_duration cs)"
  define q where "q = exact_duration c"
  define d where "d = chunk_duration c"
  have u: "0 < u" "u < 1" unfolding u_def by (rule unit_roundoff_range)+
  have q: "0 \<le> q" unfolding q_def by (rule exact_duration_nonneg)
  have E: "0 \<le> E" unfolding E_def by (rule sum_list_nonneg) (auto simp add: exact_duration_nonneg)
  from snoc have IH: "(1 - u) ^ n * E \<le> F" "F \<le> (1 + u) ^ n * E"
    by (simp_all add: u_def n_def E_def F_def)
  have dq: "(1 - u) * q \<le> d" "d \<le> (1 + u) * q"
    unfolding d_def q_def u_def chunk_duration_exact
    by (rule round53_relative [OF exact_duration_nonneg])+
  have n: "0 < n" by (simp add: n_def)
  have lo_pow: "(1 - u) ^ n \<le> 1 - u"
    using u n power_decreasing [of 1 n "1 - u"] by simp
  have hi_pow: "1 + u \<le> (1 + u) ^ n"
    using u n power_increasing [of 1 n "1 + u"] by simp
  have F0: "0 \<le> F"
    using IH(1) E u by (intro order_trans [OF _ IH(1)]) simp
  have d0: "0 \<le> d" using dq(1) q u by (intro order_trans [OF _ dq(1)]) simp
  have sum0: "0 \<le> F + d" using F0 d0 by simp
  have new: "float_sum (map chunk_duration (cs @ [c])) = round53 (F + d)"
    by (simp add: float_sum_snoc float_add_def F_def d_def)
  have "(1 - u) ^ n * (E + q) \<le> F + d"
  proof -
    have "(1 - u) ^ n * q \<le> (1 - u) * q" using lo_pow q by (rule mult_right_mono)
    with IH(1) dq(1) show ?thesis by (simp add: distrib_left)
  qed
  then have "(1 - u) * ((1 - u) ^ n * (E + q)) \<le> (1 - u) * (F + d)"
    using u by (intro mult_left_mono) simp_all
  also have "\<dots> \<le> round53 (F + d)"
    unfolding u_def by (rule round53_relative(1) [OF sum0])
  finally have lower: "(1 - u) ^ Suc n * (E + q) \<le> round53 (F + d)"
    by (simp add: mult.assoc)
  have "F + d \<le> (1 + u) ^ n * (E + q)"
  proof -
    have "(1 + u) * q \<le> (1 + u) ^ n * q" using hi_pow q by (rule mult_right_mono)
    with IH(2) dq(2) show ?thesis by (simp add: distrib_left)
  qed
  then have "(1 + u) * (F + d) \<le> (1 + u) * ((1 + u) ^ n * (E + q))"
    using u by (intro mult_left_mono) simp_all
  moreover have "round53 (F + d) \<le> (1 + u) * (F + d)"
    unfolding u_def by (rule round53_relative(2) [OF sum0])
  ultimately have upper: "round53 (F + d) \<le> (1 + u) ^ Suc n * (E + q)"
    by (simp add: mult.assoc)
  from lower upper show ?case
    unfolding new by (simp add: u_def n_def E_def q_def)
qed

lemma all_silent_run: "\<forall>c \<in> set cs. is_silent_now c \<Longrightarrow> trailing_silent_run cs = cs"
proof -
  assume "\<forall>c \<in> set cs. is_silent_now c"
  then have "takeWhile is_silent_now (rev cs) = rev cs"
    by (simp add: takeWhile_eq_all_conv)
  then show ?thesis by (simp only: trailing_silent_run_def rev_rev_ident)
qed

lemma replicate_ten: "replicate 10 x = [x, x, x, x, x, x, x, x, x, x]"
  by (simp add: numeral_eq_Suc)

lemma tenth_second: "chunk_duration (replicate 3200 0) = 3602879701896397 / 36028797018963968"
proof -
  have "round53 (1 / 10) = 3602879701896397 / 36028797018963968" by code_simp
  then show ?thesis by (simp add: chunk_duration_eq)
qed

lemma ten_tenths_in_floats:
  "float_sum (replicate 10 (3602879701896397 / 36028797018963968)) =
     9007199254740991 / 9007199254740992"
proof -
  have s1: "float_add 0 (3602879701896397 / 36028797018963968) =
      3602879701896397 / 36028797018963968"
    using float_add_0 [of "replicate 3200 0"] by (simp only: tenth_second)
  have s2: "float_add (3602879701896397 / 36028797018963968)
      (3602879701896397 / 36028797018963968) = 3602879701896397 / 18014398509481984"
    unfolding float_add_def by code_simp
  have s3: "float_add (3602879701896397 / 18014398509481984)
      (3602879701896397 / 36028797018963968) = 1351079888211149 / 4503599627370496"
    unfolding float_add_def by code_simp
  have s4: "float_add (1351079888211149 / 4503599627370496)
      (3602879701896397 / 36028797018963968) = 3602879701896397 / 9007199254740992"
    unfolding float_add_def by code_simp
  have s5: "float_add (3602879701896397 / 9007199254740992)
      (3602879701896397 / 36028797018963968) = 1 / 2"
    unfolding float_add_def by code_simp
  have s6: "float_add (1 / 2)
      (3602879701896397 / 36028797018963968) = 5404319552844595 / 9007199254740992"
    unfolding float_add_def by code_simp
  have s7: "float_add (5404319552844595 / 9007199254740992)
      (3602879701896397 / 36028797018963968) = 3152519739159347 / 4503599627370496"
    unfolding float_add_def by code_simp
  have s8: "float_add (3152519739159347 / 4503599627370496)
      (3602879701896397 / 36028797018963968) = 7205759403792793 / 9007199254740992"
    unfolding float_add_def by code_simp
  have s9: "float_add (7205759403792793 / 9007199254740992)
      (3602879701896397 / 36028797018963968) = 2026619832316723 / 2251799813685248"
    unfolding float_add_def by code_simp
  have s10: "float_add (2026619832316723 / 2251799813685248)
      (3602879701896397 / 36028797018963968) = 9007199254740991 / 9007199254740992"
    unfolding float_add_def by code_simp
  show ?thesis
    unfolding replicate_ten float_sum_def foldl.simps s1 s2 s3 s4 s5 s6 s7 s8 s9 s10 ..
qed

lemma ten_tenths_trace:
  "trailing_silent_run (replicate 10 (replicate 3200 0)) = replicate 10 (replicate 3200 0)"
  "current_silence_accumulated_duration (after_chunks (replicate 10 (replicate 3200 0))) =
     9007199254740991 / 9007199254740992"
  "sum_list (map exact_duration (replicate 10 (replicate 3200 0))) = 1"
  "sum_list (map chunk_duration (replicate 10 (replicate 3200 0))) =
     18014398509481985 / 18014398509481984"
proof -
  have "is_silent_now (replicate 3200 0)" using zeros_silent [of 1600] by simp
  then show run: "trailing_silent_run (replicate 10 (replicate 3200 0)) =
      replicate 10 (replicate 3200 0)"
    by (intro all_silent_run) simp
  show "current_silence_accumulated_duration (after_chunks (replicate 10 (replicate 3200 0))) =
     9007199254740991 / 9007199254740992"
    unfolding accumulator_eq run by (simp only: map_replicate tenth_second ten_tenths_in_floats)
  show "sum_list (map exact_duration (replicate 10 (replicate 3200 0))) = 1"
    by (simp add: replicate_ten exact_duration_def BYTES_PER_SECOND_eq)
  show "sum_list (map chunk_duration (replicate 10 (replicate 3200 0))) =
     18014398509481985 / 18014398509481984"
    by (simp add: replicate_ten tenth_second)
qed

lemma accumulator_bounds:
  "(1 - unit_roundoff) ^ Suc (length (trailing_silent_run cs)) *
      sum_list (map exact_duration (trailing_silent_run cs))
     \<le> current_silence_accumulated_duration (after_chunks cs) \<and>
   current_silence_accumulated_duration (after_chunks cs)
     \<le> (1 + unit_roundoff) ^ Suc (length (trailing_silent_run cs)) *
      sum_list (map exact_duration (trailing_silent_run cs))"
  unfolding accumulator_eq by (rule float_sum_bounds)

text \<open>
  Claim C5, as stated, fails. Ten silent chunks of 0.1 s (3200 zero bytes each) form a
  trailing silent run whose durations add up to exactly 1 second; the floats that the
  code computes for them add up to a little more than 1; the accumulator holds neither
  sum, but the largest float below 1.
\<close>

theorem accumulator_after_ten_tenths_is_below_their_sum:
  "trailing_silent_run (replicate 10 (replicate 3200 0)) = replicate 10 (replicate 3200 0) \<and>
   current_silence_accumulated_duration (after_chunks (replicate 10 (replicate 3200 0))) =
     9007199254740991 / 9007199254740992 \<and>
   sum_list (map exact_duration (replicate 10 (replicate 3200 0))) = 1 \<and>
   sum_list (map chunk_duration (replicate 10 (replicate 3200 0))) =
     18014398509481985 / 18014398509481984"
  using ten_tenths_trace by (intro conjI)

text \<open>
  Claim C5, as amended. After any sequence of chunks, the accumulated silence is the
  float sum of the float durations of the chunks of the longest silent run at the end
  of the sequence, added from 0.0 in arrival order with every addition rounded; with
  \<open>n\<close> chunks in the run it lies within the factors \<open>(1 - 2^-53)^(n+1)\<close> and
  \<open>(1 + 2^-53)^(n+1)\<close> of the exact sum of their durations \<open>len / 32000\<close>. It is
  exactly 0 right after a chunk that is not silent, and a silent chunk never makes it
  smaller.
\<close>

theorem accumulator_tracks_trailing_silence:
  "current_silence_accumulated_duration (after_chunks cs) =
     float_sum (map chunk_duration (trailing_silent_run cs)) \<and>
   (1 - unit_roundoff) ^ Suc (length (trailing_silent_run cs)) *
      sum_list (map exact_duration (trailing_silent_run cs))
     \<le> current_silence_accumulated_duration (after_chunks cs) \<and>
   current_silence_accumulated_duration (after_chunks cs)
     \<le> (1 + unit_roundoff) ^ Suc (length (trailing_silent_run cs)) *
      sum_list (map exact_duration (trailing_silent_run cs)) \<and>
   (\<not> is_silent_now c \<longrightarrow> current_silence_accumulated_duration (after_chunks (cs @ [c])) = 0) \<and>
   (is_silent_now c \<longrightarrow>
      current_silence_accumulated_duration (after_chunks cs) \<le>
      current_silence_accumulated_duration (after_chunks (cs @ [c])))"
  using accumulator_eq [of cs] accumulator_bounds [of cs] accumulator_reset [of c cs]
    accumulator_grows [of c cs]
  by blast

theorem accumulator_tracks_trailing_silence_witness:
  "is_silent_now (replicate 16000 0) \<and> \<not> is_silent_now [208, 7] \<and>
   current_silence_accumulated_duration (after_chunks [replicate 16000 0, replicate 16000 0]) = 1 \<and>
   (1 - unit_roundoff) ^ 3 * 1
     \<le> current_silence_accumulated_duration (after_chunks [replicate 16000 0, replicate 16000 0]) \<and>
   current_silence_accumulated_duration (after_chunks [replicate 16000 0, replicate 16000 0])
     \<le> (1 + unit_roundoff) ^ 3 * 1 \<and>
   current_silence_accumulated_duration
     (after_chunks ([replicate 16000 0, replicate 16000 0] @ [[208, 7]])) = 0 \<and>
   current_silence_accumulated_duration (after_chunks [replicate 16000 0, replicate 16000 0])
     \<le> current_silence_accumulated_duration
        (after_chunks ([replicate 16000 0, replicate 16000 0] @ [replicate 16000 0]))"
proof -
  let ?Z = "replicate 16000 (0::byte)"
  let ?acc = "\<lambda>cs. current_silence_accumulated_duration (after_chunks cs)"
  have quiet: "is_silent_now ?Z" using zeros_silent [of 8000] by simp
  then have run: "trailing_silent_run [?Z, ?Z] = [?Z, ?Z]" by (intro all_silent_run) simp
  have d: "chunk_duration ?Z = 1 / 2" by (rule chunk_duration_half_second) simp
  have e: "exact_duration ?Z = 1 / 2" by (simp add: exact_duration_def BYTES_PER_SECOND_eq)
  have fsum: "float_sum (map chunk_duration [?Z, ?Z]) = 1"
    by (simp add: float_sum_def d float_add_0_half float_add_halves)
  have esum: "sum_list (map exact_duration [?Z, ?Z]) = 1" by (simp add: e)
  have len: "Suc (length [?Z, ?Z]) = 3" by simp
  note speech = accumulator_tracks_trailing_silence [of "[?Z, ?Z]" "[208, 7]"]
  note more = accumulator_tracks_trailing_silence [of "[?Z, ?Z]" ?Z]
  from speech have "?acc [?Z, ?Z] = 1"
    and "(1 - unit_roundoff) ^ 3 * 1 \<le> ?acc [?Z, ?Z]"
    and "?acc [?Z, ?Z] \<le> (1 + unit_roundoff) ^ 3 * 1"
    unfolding run fsum esum len by blast+
  moreover from speech speech_not_silent have "?acc ([?Z, ?Z] @ [[208, 7]]) = 0" by blast
  moreover from more quiet have "?acc [?Z, ?Z] \<le> ?acc ([?Z, ?Z] @ [?Z])" by blast
  ultimately show ?thesis using quiet speech_not_silent by (intro conjI)
qed

subsection \<open>Relaying only below the maximal silence\<close>

lemma relaying_below_max:
  "relaying_audio (after_chunks cs) \<Longrightarrow>
   current_silence_accumulated_duration (after_chunks cs) < MAX_SILENCE_SECONDS"
proof (cases cs rule: rev_cases)
  case Nil
  then show ?thesis
    by (simp add: after_chunks_Nil initial_session_def MAX_SILENCE_SECONDS_def)
next
  case (snoc cs' c)
  assume "relaying_audio (after_chunks cs)"
  with snoc show ?thesis
    by (simp add: after_chunks_snoc relay_step_relaying relay_step_acc MAX_SILENCE_SECONDS_def
        split: if_splits)
qed

lemma withheld_at_max:
  assumes "MAX_SILENCE_SECONDS \<le> current_silence_accumulated_duration (after_chunks (cs @ [c]))"
  shows "\<not> relaying_audio (after_chunks (cs @ [c]))"
    and "sent (after_chunks (cs @ [c])) = sent (after_chunks cs)"
proof -
  from assms relaying_below_max [of "cs @ [c]"]
  show "\<not> relaying_audio (after_chunks (cs @ [c]))" by auto
  then show "sent (after_chunks (cs @ [c])) = sent (after_chunks cs)"
    by (simp add: after_chunks_snoc relay_step_sent)
qed

text \<open>
  Claim C10. After any sequence of binary chunks processed from the initial state, a
  relaying gate has accumulated strictly less than \<open>MAX_SILENCE_SECONDS\<close> of silence.
  So a chunk that leaves the accumulator at or above the maximum (the one that first
  reaches it among them) is itself withheld: the gate is paused after it and nothing
  was sent for it.
\<close>

theorem relaying_implies_below_max_silence:
  "(relaying_audio (after_chunks cs) \<longrightarrow>
      current_silence_accumulated_duration (after_chunks cs) < MAX_SILENCE_SECONDS) \<and>
   (MAX_SILENCE_SECONDS \<le> current_silence_accumulated_duration (after_chunks (cs @ [c])) \<longrightarrow>
      \<not> relaying_audio (after_chunks (cs @ [c])) \<and>
      sent (after_chunks (cs @ [c])) = sent (after_chunks cs))"
  using relaying_below_max [of cs] withheld_at_max [of cs c] by blast

theorem relaying_implies_below_max_silence_witness:
  "relaying_audio (after_chunks []) \<and>
   current_silence_accumulated_duration (after_chunks []) < MAX_SILENCE_SECONDS \<and>
   MAX_SILENCE_SECONDS \<le> current_silence_accumulated_duration (after_chunks ([] @ [replicate 32000 0])) \<and>
   \<not> relaying_audio (after_chunks ([] @ [replicate 32000 0])) \<and>
   sent (after_chunks ([] @ [replicate 32000 0])) = sent (after_chunks [])"
proof -
  have r: "relaying_audio (after_chunks [])"
    by (simp add: after_chunks_Nil initial_session_def)
  have "chunk_duration (replicate 32000 0) = 1"
    by (simp add: chunk_duration_eq round53_1)
  then have m: "MAX_SILENCE_SECONDS \<le>
      current_silence_accumulated_duration (after_chunks ([] @ [replicate 32000 0]))"
    using zeros_silent [of 16000] float_add_0 [of "replicate 32000 0"]
    by (simp add: after_chunks_foldl relay_step_acc initial_session_def MAX_SILENCE_SECONDS_def)
  from relaying_implies_below_max_silence [of "[]" "replicate 32000 0"] r m
  show ?thesis by blast
qed

subsection \<open>The classifier at the edge of its domain\<close>

lemma samples_Nil_iff: "samples bs = [] \<longleftrightarrow> length bs < 2"
  by (induction bs rule: samples.induct) simp_all

lemma classifier_positive_threshold:
  assumes "0 < threshold"
  shows "is_chunk_silent_max_abs bs threshold =
    Inr (samples bs = [] \<or> (\<forall>v \<in> set (samples bs). \<bar>v\<bar> < threshold))"
proof -
  have "bs = [] \<Longrightarrow> samples bs = []" by simp
  then show ?thesis using assms by (auto simp add: is_chunk_silent_max_abs_eq peak_less_iff)
qed

lemma samples_whole_prefix: "samples (take (2 * (length bs div 2)) bs) = samples bs"
  by (induction bs rule: samples.induct) simp_all

lemma classifier_ignores_tail:
  assumes "0 < threshold \<or> 2 \<le> length bs"
  shows "is_chunk_silent_max_abs bs threshold =
    is_chunk_silent_max_abs (take (2 * (length bs div 2)) bs) threshold"
proof -
  have "bs = [] \<or> peak (samples bs) < threshold \<longleftrightarrow>
      take (2 * (length bs div 2)) bs = [] \<or> peak (samples bs) < threshold"
  proof (cases "2 \<le> length bs")
    case True
    then have "bs \<noteq> []" and "take (2 * (length bs div 2)) bs \<noteq> []" by auto
    then show ?thesis by simp
  next
    case False
    then have "samples bs = []" by (simp add: samples_Nil_iff)
    moreover from False assms have "0 < threshold" by simp
    ultimately show ?thesis by (simp add: peak_def)
  qed
  then show ?thesis by (simp add: is_chunk_silent_max_abs_eq samples_whole_prefix)
qed

lemma classifier_never_raises: "\<exists>b. is_chunk_silent_max_abs bs threshold = Inr b"
  by (simp add: is_chunk_silent_max_abs_eq)

text \<open>
  Claim C4 at its failing input. A chunk of one byte holds no complete sample, and the
  claim calls it silent at every threshold from 0 on; at threshold 0 the classifier
  answers not silent, since only the empty chunk returns early and the peak 0 of no
  samples is not below 0.
\<close>

theorem one_byte_chunk_at_threshold_zero:
  "samples [0] = [] \<and> is_chunk_silent_max_abs [0] 0 = Inr False \<and>
   is_chunk_silent_max_abs [] 0 = Inr True"
  by (simp add: is_chunk_silent_max_abs_eq peak_def)

text \<open>
  Claim C9 at its failing input. The classifier never raises, on any chunk. But at
  threshold 0 the chunk of the single byte 7 is classified not silent, while its
  largest whole-sample prefix, the empty chunk, is classified silent.
\<close>

theorem odd_chunk_differs_from_its_whole_prefix:
  "odd (length [7 :: byte]) \<and> is_chunk_silent_max_abs [7] 0 = Inr False \<and>
   is_chunk_silent_max_abs (take (2 * (length [7 :: byte] div 2)) [7]) 0 = Inr True"
  by (simp add: is_chunk_silent_max_abs_eq peak_def)

subsection \<open>The buffer and the teardown\<close>

lemma silence_gate_pcm: "pcm_data_chunks (silence_gate b d s) = pcm_data_chunks s"
  by (simp add: silence_gate_def print_def Let_def)

lemma handle_message_pcm:
  "pcm_data_chunks (fst (handle_message f s)) = pcm_data_chunks s @ binary_frames [f]"
proof (cases f)
  case (Pair m send_outcome)
  show ?thesis
  proof (cases m)
    case (Bytes message)
    with Pair show ?thesis
      by (simp add: classifier_is_silent_now silence_gate_pcm Let_def split: option.split)
  next
    case (Text t)
    with Pair show ?thesis by (simp add: print_def)
  qed
qed

lemma handle_message_raises:
  "snd (handle_message f s) = Some e \<Longrightarrow> snd f = Some e"
proof (cases f)
  case (Pair m send_outcome)
  assume "snd (handle_message f s) = Some e"
  with Pair show ?thesis
    by (cases m) (simp_all add: classifier_is_silent_now Let_def split: if_splits option.splits)
qed

lemma binary_frames_Cons: "binary_frames (f # fs) = binary_frames [f] @ binary_frames fs"
proof (cases f)
  case (Pair m send_outcome)
  then show ?thesis by (cases m) simp_all
qed

lemma receive_loop_pcm:
  "receive_loop fs closing s = (s', raised, rest) \<Longrightarrow>
   length rest \<le> length fs \<and>
   pcm_data_chunks s' = pcm_data_chunks s @ binary_frames (take (length fs - length rest) fs)"
proof (induction fs arbitrary: s)
  case Nil
  then show ?case by simp
next
  case (Cons f fs)
  obtain s1 r1 where h: "handle_message f s = (s1, r1)" by (cases "handle_message f s")
  from handle_message_pcm [of f s] h
  have pcm1: "pcm_data_chunks s1 = pcm_data_chunks s @ binary_frames [f]" by simp
  show ?case
  proof (cases r1)
    case (Some e)
    with Cons.prems h have "s' = s1" and "rest = fs" by simp_all
    with pcm1 show ?thesis by simp
  next
    case None
    with Cons.prems h have "receive_loop fs closing s1 = (s', raised, rest)" by simp
    from Cons.IH [OF this] have le: "length rest \<le> length fs"
      and pcm: "pcm_data_chunks s' =
        pcm_data_chunks s1 @ binary_frames (take (length fs - length rest) fs)"
      by simp_all
    from le have "take (length (f # fs) - length rest) (f # fs) =
        f # take (length fs - length rest) fs"
      by (simp add: Suc_diff_le)
    with le pcm pcm1 show ?thesis
      using binary_frames_Cons [of f "take (length fs - length rest) fs"] by simp
  qed
qed

lemma receive_loop_raised:
  "receive_loop fs closing s = (s', Some e, rest) \<Longrightarrow>
   closing = Some e \<or> (\<exists>f \<in> set fs. snd f = Some e)"
proof (induction fs arbitrary: s)
  case Nil
  then show ?case by simp
next
  case (Cons f fs)
  obtain s1 r1 where h: "handle_message f s = (s1, r1)" by (cases "handle_message f s")
  show ?case
  proof (cases r1)
    case (Some e1)
    with Cons.prems h have "e1 = e" by simp
    with Some h handle_message_raises [of f s e] show ?thesis by simp
  next
    case None
    with Cons.prems h have "receive_loop fs closing s1 = (s', Some e, rest)" by simp
    from Cons.IH [OF this] show ?thesis by auto
  qed
qed

lemma except_clauses_pcm: "pcm_data_chunks (fst (except_clauses raised s)) = pcm_data_chunks s"
  by (induction raised s rule: except_clauses.induct) (simp_all add: print_def)

lemma except_clauses_pending:
  "snd (except_clauses raised s) = (if raised = Some NonException then raised else None)"
  by (induction raised s rule: except_clauses.induct) simp_all

text \<open>The handler, with the results of its three stages named.\<close>

lemma audio_handler_stages:
  assumes "receive_loop incoming closing initial_session = (s1, raised, rest)"
    and "except_clauses raised s1 = (s2, pending)"
  shows "audio_handler client_address now incoming closing fs_outcome =
    (case teardown (output_filename client_address now) fs_outcome pending s2 of
       (s3, file, leaving) \<Rightarrow> \<lparr>final = s3, unread = rest, written = file, propagated = leaving\<rparr>)"
  using assms by (simp add: audio_handler_def)

lemma teardown_empty:
  "pcm_data_chunks s = [] \<Longrightarrow>
   teardown filename fs_outcome pending s =
     (print NoAudioData (print RemovedFromConnections s), None, pending)"
  by (simp add: teardown_def print_def)


lemma teardown_write_error:
  "pcm_data_chunks s \<noteq> [] \<Longrightarrow> is_Exception e \<Longrightarrow>
   teardown filename (Some e) pending s =
     (print ErrorWritingWav
        (print (WritingChunks (length (pcm_data_chunks s))) (print RemovedFromConnections s)),
      None, pending)"
  by (simp add: teardown_def print_def write_wav_def)

lemma last_print: "last (printed (print l s)) = l"
  by (simp add: print_def)


lemma handler_teardown:
  assumes "r = audio_handler client_address now incoming closing fs_outcome"
  obtains s pending where
    "pcm_data_chunks s = binary_frames (received incoming r)"
    "pending = (if fst (snd (receive_loop incoming closing initial_session)) = Some NonException
       then Some NonException else None)"
    "teardown (output_filename client_address now) fs_outcome pending s =
       (final r, written r, propagated r)"
proof -
  obtain s1 raised rest where loop: "receive_loop incoming closing initial_session = (s1, raised, rest)"
    by (cases "receive_loop incoming closing initial_session")
  obtain s2 pending where ex: "except_clauses raised s1 = (s2, pending)"
    by (cases "except_clauses raised s1")
  obtain s3 wav leaving
    where td: "teardown (output_filename client_address now) fs_outcome pending s2 = (s3, wav, leaving)"
    by (cases "teardown (output_filename client_address now) fs_outcome pending s2")
  have r: "r = \<lparr>final = s3, unread = rest, written = wav, propagated = leaving\<rparr>"
    using assms by (simp add: audio_handler_stages [OF loop ex] td)
  from receive_loop_pcm [OF loop] except_clauses_pcm [of raised s1] ex
  have "pcm_data_chunks s2 = binary_frames (received incoming r)"
    by (simp add: initial_session_def received_def r)
  moreover from except_clauses_pending [of raised s1] ex loop
  have "pending = (if fst (snd (receive_loop incoming closing initial_session)) = Some NonException
       then Some NonException else None)"
    by auto
  moreover have "teardown (output_filename client_address now) fs_outcome pending s2 =
       (final r, written r, propagated r)"
    by (simp add: td r)
  ultimately show thesis by (rule that)
qed


lemma no_audio_no_file:
  assumes "r = audio_handler client_address now incoming closing fs_outcome"
    and "binary_frames (received incoming r) = []"
  shows "written r = None" and "last (printed (final r)) = NoAudioData"
proof -
  from assms(1) obtain s pending where
    s: "pcm_data_chunks s = binary_frames (received incoming r)" and
    td: "teardown (output_filename client_address now) fs_outcome pending s =
       (final r, written r, propagated r)"
    by (rule handler_teardown)
  from assms(2) s have "pcm_data_chunks s = []" by simp
  from teardown_empty [OF this, of "output_filename client_address now" fs_outcome pending] td
  show "written r = None" and "last (printed (final r)) = NoAudioData"
    by (auto simp add: last_print)
qed

lemma propagated_independent_of_write_error:
  assumes "is_Exception e"
  shows "propagated (audio_handler client_address now incoming closing (Some e)) =
    propagated (audio_handler client_address now incoming closing None)"
proof -
  obtain s1 raised rest where loop: "receive_loop incoming closing initial_session = (s1, raised, rest)"
    by (cases "receive_loop incoming closing initial_session")
  obtain s2 pending where ex: "except_clauses raised s1 = (s2, pending)"
    by (cases "except_clauses raised s1")
  show ?thesis
    using assms
    by (simp add: audio_handler_stages [OF loop ex] teardown_def write_wav_def Let_def)
qed

lemma write_error_caught:
  assumes "r = audio_handler client_address now incoming closing (Some e)"
    and "binary_frames (received incoming r) \<noteq> []" and "is_Exception e"
  shows "written r = None" and "last (printed (final r)) = ErrorWritingWav"
    and "closing \<noteq> Some NonException \<Longrightarrow> \<forall>f \<in> set incoming. snd f \<noteq> Some NonException \<Longrightarrow>
      propagated r = None"
proof -
  from assms(1) obtain s pending where
    s: "pcm_data_chunks s = binary_frames (received incoming r)" and
    p: "pending = (if fst (snd (receive_loop incoming closing initial_session)) = Some NonException
       then Some NonException else None)" and
    td: "teardown (output_filename client_address now) (Some e) pending s =
       (final r, written r, propagated r)"
    by (rule handler_teardown)
  from assms(2) s have "pcm_data_chunks s \<noteq> []" by simp
  note t = teardown_write_error [OF this assms(3), of "output_filename client_address now" pending]
  from t td show "written r = None" and "last (printed (final r)) = ErrorWritingWav"
    by (auto simp add: last_print)
  assume ok: "closing \<noteq> Some NonException" "\<forall>f \<in> set incoming. snd f \<noteq> Some NonException"
  obtain s1 raised rest where loop: "receive_loop incoming closing initial_session = (s1, raised, rest)"
    by (cases "receive_loop incoming closing initial_session")
  have "raised \<noteq> Some NonException"
  proof
    assume "raised = Some NonException"
    with loop receive_loop_raised [of incoming closing initial_session s1 NonException rest] ok
    show False by auto
  qed
  with p loop have "pending = None" by simp
  with t td show "propagated r = None" by simp
qed

text \<open>A session of one binary frame, closed normally afterwards.\<close>

lemma one_frame_session:
  "audio_handler client_address now [(Bytes c, None)] None fs_outcome =
     (case teardown (output_filename client_address now) fs_outcome None
        (relay_step c initial_session) of
        (s3, wav, leaving) \<Rightarrow> \<lparr>final = s3, unread = [], written = wav, propagated = leaving\<rparr>)"
proof -
  have "receive_loop [(Bytes c, None)] None initial_session =
      (relay_step c initial_session, None, [])"
    using receive_loop_binary [of "[c]" initial_session] by (simp add: binary_frame_def)
  then show ?thesis by (rule audio_handler_stages) simp
qed


lemma one_frame_session_write_error:
  "audio_handler client_address now [(Bytes c, None)] None (Some OtherException) =
     \<lparr>final = print ErrorWritingWav (print (WritingChunks 1)
        (print RemovedFromConnections (relay_step c initial_session))),
      unread = [], written = None, propagated = None\<rparr>"
proof -
  have "pcm_data_chunks (relay_step c initial_session) = [c]"
    by (simp add: relay_step_pcm initial_session_def)
  then show ?thesis
    using teardown_write_error [of "relay_step c initial_session" OtherException
        "output_filename client_address now" None]
    by (simp add: one_frame_session)
qed

lemma text_only_session:
  "audio_handler client_address now [(Text t, None)] None fs_outcome =
     \<lparr>final = print NoAudioData (print RemovedFromConnections
        (print (ReceivedTextMessage t) initial_session)),
      unread = [], written = None, propagated = None\<rparr>"
proof -
  have "receive_loop [(Text t, None)] None initial_session =
      (print (ReceivedTextMessage t) initial_session, None, [])"
    by simp
  from audio_handler_stages [OF this, of "print (ReceivedTextMessage t) initial_session" None]
  show ?thesis by (simp add: teardown_empty print_def initial_session_def)
qed




text \<open>
  Claim C7. If no binary frame was received, the teardown writes no file: it reports
  that there is no audio, whatever the file system would have done. If binary frames
  were received and the write raises an error, the error is reported and no file is
  recorded; the error does not leave the handler, which ends as it ends when the write
  goes through, and returns normally in every session that was not cut short by an
  exception outside \<open>Exception\<close>.
\<close>

theorem teardown_skips_or_survives_the_write:
  "(binary_frames (received incoming
      (audio_handler client_address now incoming closing fs_outcome)) = [] \<longrightarrow>
    written (audio_handler client_address now incoming closing fs_outcome) = None \<and>
    last (printed (final (audio_handler client_address now incoming closing fs_outcome))) =
      NoAudioData) \<and>
   (binary_frames (received incoming
      (audio_handler client_address now incoming closing (Some e))) \<noteq> [] \<and> is_Exception e \<longrightarrow>
    written (audio_handler client_address now incoming closing (Some e)) = None \<and>
    last (printed (final (audio_handler client_address now incoming closing (Some e)))) =
      ErrorWritingWav \<and>
    propagated (audio_handler client_address now incoming closing (Some e)) =
      propagated (audio_handler client_address now incoming closing None) \<and>
    (closing \<noteq> Some NonException \<and> (\<forall>f \<in> set incoming. snd f \<noteq> Some NonException) \<longrightarrow>
      propagated (audio_handler client_address now incoming closing (Some e)) = None))"
  using no_audio_no_file [OF refl, of incoming client_address now closing fs_outcome]
    write_error_caught [OF refl, of incoming client_address now closing e]
    propagated_independent_of_write_error [of e client_address now incoming closing]
  by blast

theorem teardown_skips_or_survives_the_write_witness:
  "binary_frames (received [(Text ''hello'', None)]
     (audio_handler ''peer''
       \<lparr>year = 2026, month = 11, day = 4, hour = 9, minute = 5, second = 7, microsecond = 1234\<rparr>
       [(Text ''hello'', None)] None (Some OtherException))) = [] \<and>
   written (audio_handler ''peer''
       \<lparr>year = 2026, month = 11, day = 4, hour = 9, minute = 5, second = 7, microsecond = 1234\<rparr>
       [(Text ''hello'', None)] None (Some OtherException)) = None \<and>
   last (printed (final (audio_handler ''peer''
       \<lparr>year = 2026, month = 11, day = 4, hour = 9, minute = 5, second = 7, microsecond = 1234\<rparr>
       [(Text ''hello'', None)] None (Some OtherException)))) = NoAudioData \<and>
   binary_frames (received [(Bytes [208, 7], None)]
     (audio_handler ''peer''
       \<lparr>year = 2026, month = 11, day = 4, hour = 9, minute = 5, second = 7, microsecond = 1234\<rparr>
       [(Bytes [208, 7], None)] None (Some OtherException))) \<noteq> [] \<and>
   is_Exception OtherException \<and>
   written (audio_handler ''peer''
       \<lparr>year = 2026, month = 11, day = 4, hour = 9, minute = 5, second = 7, microsecond = 1234\<rparr>
       [(Bytes [208, 7], None)] None (Some OtherException)) = None \<and>
   last (printed (final (audio_handler ''peer''
       \<lparr>year = 2026, month = 11, day = 4, hour = 9, minute = 5, second = 7, microsecond = 1234\<rparr>
       [(Bytes [208, 7], None)] None (Some OtherException)))) = ErrorWritingWav \<and>
   propagated (audio_handler ''peer''
       \<lparr>year = 2026, month = 11, day = 4, hour = 9, minute = 5, second = 7, microsecond = 1234\<rparr>
       [(Bytes [208, 7], None)] None (Some OtherException)) = None"
proof -
  let ?T = "\<lparr>year = 2026, month = 11, day = 4, hour = 9, minute = 5, second = 7,
    microsecond = 1234\<rparr>"
  let ?I1 = "[(Text ''hello'', None)] :: frame list"
  let ?I2 = "[(Bytes [208, 7], None)] :: frame list"
  let ?r1 = "audio_handler ''peer'' ?T ?I1 None (Some OtherException)"
  let ?r2 = "audio_handler ''peer'' ?T ?I2 None (Some OtherException)"
  have empty: "binary_frames (received ?I1 ?r1) = []"
    by (simp add: text_only_session received_def)
  have audio: "binary_frames (received ?I2 ?r2) \<noteq> []"
    by (simp add: one_frame_session_write_error received_def)
  have err: "is_Exception OtherException" by simp
  have ok: "None \<noteq> Some NonException \<and> (\<forall>f \<in> set ?I2. snd f \<noteq> Some NonException)"
    by simp
  have first: "written ?r1 = None \<and> last (printed (final ?r1)) = NoAudioData"
    by (rule teardown_skips_or_survives_the_write
        [of ?I1 "''peer''" ?T None "Some OtherException" OtherException,
          THEN conjunct1, THEN mp, OF empty])
  from teardown_skips_or_survives_the_write
    [of ?I2 "''peer''" ?T None "Some OtherException" OtherException] audio err ok
  have second: "written ?r2 = None \<and> last (printed (final ?r2)) = ErrorWritingWav \<and>
      propagated ?r2 = None"
    by blast
  from empty audio err first second show ?thesis by (elim conjE, intro conjI) assumption+
qed

subsection \<open>The output file name\<close>

lemma length_zero_padded: "length (zero_padded w n) = w"
  by (induction w arbitrary: n) simp_all

lemma digit_char_inj:
  assumes "a < 10" and "b < 10" and "digit_char a = digit_char b"
  shows "a = b"
proof -
  from assms(3) have "(of_char (digit_char a) :: nat) = of_char (digit_char b)" by simp
  then have "(48 + a) mod 256 = (48 + b) mod 256" by (simp add: digit_char_def)
  with assms(1,2) show ?thesis by simp
qed

lemma zero_padded_inj:
  "n < 10 ^ w \<Longrightarrow> m < 10 ^ w \<Longrightarrow> zero_padded w n = zero_padded w m \<Longrightarrow> n = m"
proof (induction w arbitrary: n m)
  case 0
  then show ?case by simp
next
  case (Suc w)
  from Suc.prems(1,2) have n: "n div 10 < 10 ^ w" and m: "m div 10 < 10 ^ w"
    by (simp_all add: less_mult_imp_div_less mult.commute)
  from Suc.prems(3)
  have z: "zero_padded w (n div 10) = zero_padded w (m div 10)"
    and d: "digit_char (n mod 10) = digit_char (m mod 10)"
    by simp_all
  from n m z have "n div 10 = m div 10" by (rule Suc.IH)
  moreover from d have "n mod 10 = m mod 10" by (intro digit_char_inj) simp_all
  ultimately show ?case by (metis div_mult_mod_eq)
qed

lemma strftime_inj:
  assumes "valid_datetime a" and "valid_datetime b" and "strftime a = strftime b"
  shows "a = b"
proof -
  note l = length_zero_padded
  from assms(3) have
    "zero_padded 4 (year a) = zero_padded 4 (year b)"
    "zero_padded 2 (month a) = zero_padded 2 (month b)"
    "zero_padded 2 (day a) = zero_padded 2 (day b)"
    "zero_padded 2 (hour a) = zero_padded 2 (hour b)"
    "zero_padded 2 (minute a) = zero_padded 2 (minute b)"
    "zero_padded 2 (second a) = zero_padded 2 (second b)"
    "zero_padded 6 (microsecond a) = zero_padded 6 (microsecond b)"
    by (simp_all add: strftime_def l)
  moreover from assms(1,2) have
    "year a < 10 ^ 4" "year b < 10 ^ 4" "month a < 10 ^ 2" "month b < 10 ^ 2"
    "day a < 10 ^ 2" "day b < 10 ^ 2" "hour a < 10 ^ 2" "hour b < 10 ^ 2"
    "minute a < 10 ^ 2" "minute b < 10 ^ 2" "second a < 10 ^ 2" "second b < 10 ^ 2"
    "microsecond a < 10 ^ 6" "microsecond b < 10 ^ 6"
    by (simp_all add: valid_datetime_def)
  ultimately have "year a = year b" "month a = month b" "day a = day b" "hour a = hour b"
    "minute a = minute b" "second a = second b" "microsecond a = microsecond b"
    by (blast intro: zero_padded_inj)+
  then show ?thesis by simp
qed

lemma output_filename_eq:
  "output_filename client_address now =
     ''received_audio/audio_'' @ sanitize client_address @ ''_'' @ strftime now @ ''.wav''"
  by (simp add: output_filename_def path_join_def OUTPUT_DIR_def)

lemma output_filename_inj:
  assumes "valid_datetime a" and "valid_datetime b"
    and "output_filename client_address a = output_filename client_address b"
  shows "a = b"
proof -
  from assms(3) have "strftime a @ ''.wav'' = strftime b @ ''.wav''"
    unfolding output_filename_eq by (simp only: same_append_eq)
  then have "strftime a = strftime b" by (simp only: append_same_eq)
  with assms(1,2) show ?thesis by (rule strftime_inj)
qed

text \<open>
  Claim C8. Two sessions from the same remote identity whose creation instants, as
  \<open>datetime.now()\<close> reads them to the microsecond, differ get distinct output file
  names. Instants within the same second, which differ in the microsecond only, are a
  special case.
\<close>

theorem distinct_instants_give_distinct_filenames:
  assumes "valid_datetime a" and "valid_datetime b" and "a \<noteq> b"
  shows "output_filename client_address a \<noteq> output_filename client_address b"
  using assms output_filename_inj [of a b client_address] by blast

theorem distinct_instants_give_distinct_filenames_witness:
  "valid_datetime
     \<lparr>year = 2026, month = 11, day = 4, hour = 9, minute = 5, second = 7, microsecond = 1234\<rparr> \<and>
   valid_datetime
     \<lparr>year = 2026, month = 11, day = 4, hour = 9, minute = 5, second = 7, microsecond = 1235\<rparr> \<and>
   output_filename ''('127.0.0.1', 54321)''
     \<lparr>year = 2026, month = 11, day = 4, hour = 9, minute = 5, second = 7, microsecond = 1234\<rparr> \<noteq>
   output_filename ''('127.0.0.1', 54321)''
     \<lparr>year = 2026, month = 11, day = 4, hour = 9, minute = 5, second = 7, microsecond = 1235\<rparr>"
proof -
  let ?a = "\<lparr>year = 2026, month = 11, day = 4, hour = 9, minute = 5, second = 7,
    microsecond = 1234\<rparr>"
  let ?b = "\<lparr>year = 2026, month = 11, day = 4, hour = 9, minute = 5, second = 7,
    microsecond = 1235\<rparr>"
  have a: "valid_datetime ?a" and b: "valid_datetime ?b" by (simp_all add: valid_datetime_def)
  have ab: "?a \<noteq> ?b" by simp
  from distinct_instants_give_distinct_filenames [OF a b ab] a b show ?thesis by simp
qed

end
